theory Spec2Isabelle
  imports Main "HOL-Library.Word"
begin

unbundle bit_operations_syntax

section \<open>The code installer of graalCodeInstaller.cpp\<close>

text \<open>
  The installer takes the output of the compiler (machine code and its annotated sites)
  and produces oop maps, debug information and a patched code buffer. The embedding
  below follows \<^verbatim>\<open>src/share/vm/graal/graalCodeInstaller.cpp\<close> function by
  function; the error macros are those of \<^verbatim>\<open>src/share/vm/utilities/debug.hpp\<close>.
\<close>

subsection \<open>Machine integers\<close>

type_synonym jint = "32 word"
type_synonym jlong = "64 word"
type_synonym address = "64 word"
type_synonym u_char = "8 word"

subsection \<open>Errors (debug.hpp)\<close>

text \<open>
  \<^verbatim>\<open>assert(p, msg)\<close> reports a VM error when \<^verbatim>\<open>p\<close> is false, but only when the
  preprocessor symbol \<^verbatim>\<open>ASSERT\<close> is defined; without it the macro expands to nothing
  (debug.hpp, lines 142 to 196). \<^verbatim>\<open>guarantee\<close>, \<^verbatim>\<open>fatal\<close> and
  \<^verbatim>\<open>ShouldNotReachHere\<close> are always executed. A reported VM error ends the
  installation: it is the \<open>Inl\<close> of a result. Behaviour the language leaves undefined
  (a read beyond an array, a null dereference) is an error of its own.
\<close>

datatype error =
    AssertFailed string
  | GuaranteeFailed string
  | Fatal string
  | ShouldNotReachHere
  | Undefined string

text \<open>
  The build: whether \<^verbatim>\<open>ASSERT\<close> is defined, and the constants of the platform that
  the installer uses and other files define.
\<close>

record build =
  ASSERT :: bool
  VM_LITTLE_ENDIAN :: bool
  HeapWordSize :: jint
  NativeCall_instruction_size :: jint
  NativeMovConstReg_instruction_size :: jint

definition vm_assert :: "build \<Rightarrow> bool \<Rightarrow> string \<Rightarrow> error + unit" where
  "vm_assert B p msg = (if ASSERT B \<and> \<not> p then Inl (AssertFailed msg) else Inr ())"

definition guarantee :: "bool \<Rightarrow> string \<Rightarrow> error + unit" where
  "guarantee p msg = (if \<not> p then Inl (GuaranteeFailed msg) else Inr ())"

subsection \<open>Registers and the reference-map decoder\<close>

datatype register =
  rax | rcx | rdx | rbx | rsp | rbp | rsi | rdi | r8 | r9 | r10 | r11 | r12 | r13 | r14 | r15

datatype xmm_register =
  xmm0 | xmm1 | xmm2 | xmm3 | xmm4 | xmm5 | xmm6 | xmm7
  | xmm8 | xmm9 | xmm10 | xmm11 | xmm12 | xmm13 | xmm14 | xmm15

text \<open>
  A \<^verbatim>\<open>VMReg\<close>: of a named register, of the register with a given encoding
  (\<^verbatim>\<open>as_Register(n)\<close>, \<^verbatim>\<open>as_XMMRegister(n)\<close>) or of a stack slot
  (\<^verbatim>\<open>VMRegImpl::stack2reg\<close>).
\<close>

datatype vmreg =
    Register_VMReg register
  | XMMRegister_VMReg xmm_register
  | as_Register_VMReg jint
  | as_XMMRegister_VMReg jint
  | stack2reg nat

definition CPU_REGS :: "register list" where
  "CPU_REGS = [rax, rcx, rdx, rbx, rsp, rbp, rsi, rdi, r8, r9, r10, r11, r12, r13, r14, r15]"

definition OOP_ALLOWED :: "bool list" where
  "OOP_ALLOWED = [True, True, True, True, False, False, True, True,
                  True, True, False, True, True, True, True, True]"

definition NUM_CPU_REGS :: nat where
  "NUM_CPU_REGS = length CPU_REGS"

definition XMM_REGS :: "xmm_register list" where
  "XMM_REGS = [xmm0, xmm1, xmm2, xmm3, xmm4, xmm5, xmm6, xmm7,
               xmm8, xmm9, xmm10, xmm11, xmm12, xmm13, xmm14, xmm15]"

definition NUM_XMM_REGS :: nat where
  "NUM_XMM_REGS = length XMM_REGS"

definition NUM_REGS :: nat where
  "NUM_REGS = NUM_CPU_REGS + NUM_XMM_REGS"

text \<open>
  \<^verbatim>\<open>get_hotspot_reg\<close>. The index is never negative where the installer calls it, so
  it is a natural number here. Without the assertion an index beyond both tables reads
  past \<^verbatim>\<open>XMM_REGS\<close>.
\<close>

definition get_hotspot_reg :: "build \<Rightarrow> nat \<Rightarrow> error + vmreg" where
  "get_hotspot_reg B graal_reg =
     (case vm_assert B (graal_reg < NUM_REGS) ''invalid register number'' of
        Inl e \<Rightarrow> Inl e
      | Inr _ \<Rightarrow>
          if graal_reg < NUM_CPU_REGS then Inr (Register_VMReg (CPU_REGS ! graal_reg))
          else if graal_reg - NUM_CPU_REGS < NUM_XMM_REGS
               then Inr (XMMRegister_VMReg (XMM_REGS ! (graal_reg - NUM_CPU_REGS)))
               else Inl (Undefined ''XMM_REGS read out of bounds''))"

definition MapWordBits :: nat where
  "MapWordBits = 64"

text \<open>A \<^verbatim>\<open>GraalBitMap\<close>: its array of 64-bit words.\<close>

record bit_map =
  words :: "jlong list"

text \<open>
  \<^verbatim>\<open>is_bit_set\<close>. The word index is checked by an assertion only; without it the
  array is read out of bounds.
\<close>

definition is_bit_set :: "build \<Rightarrow> bit_map \<Rightarrow> nat \<Rightarrow> error + bool" where
  "is_bit_set B bm i =
     (let extra_idx = i div MapWordBits in
      case vm_assert B (extra_idx < length (words bm)) ''unexpected index'' of
        Inl e \<Rightarrow> Inl e
      | Inr _ \<Rightarrow>
          if extra_idx < length (words bm)
          then Inr ((words bm ! extra_idx) AND (push_bit (i mod MapWordBits) 1) \<noteq> 0)
          else Inl (Undefined ''bit map words read out of bounds''))"

definition bitmap_size :: "bit_map \<Rightarrow> nat" where
  "bitmap_size bm = length (words bm) * MapWordBits"

text \<open>
  An \<^verbatim>\<open>OopMap\<close>: the frame size and argument count it was created with, and the
  \<^verbatim>\<open>set_oop\<close> and \<^verbatim>\<open>set_value\<close> calls made on it, in order.
\<close>

datatype oop_map_entry = set_oop vmreg | set_value vmreg

record oop_map =
  om_frame_size :: jint
  om_arg_count :: jint
  om_entries :: "oop_map_entry list"

definition new_OopMap :: "jint \<Rightarrow> jint \<Rightarrow> oop_map" where
  "new_OopMap frame_size arg_count =
     \<lparr>om_frame_size = frame_size, om_arg_count = arg_count, om_entries = []\<rparr>"

definition om_add :: "oop_map_entry \<Rightarrow> oop_map \<Rightarrow> oop_map" where
  "om_add e m = m\<lparr>om_entries := om_entries m @ [e]\<rparr>"

text \<open>The part of a \<^verbatim>\<open>DebugInfo\<close> that the decoder reads.\<close>

record ref_maps =
  registerRefMap :: "bit_map option"
  frameRefMap :: bit_map

text \<open>The loop over the CPU registers (lines 79 to 88), from index \<open>i\<close> on.\<close>

function register_loop :: "build \<Rightarrow> bit_map \<Rightarrow> nat \<Rightarrow> oop_map \<Rightarrow> error + oop_map" where
  "register_loop B register_map i m =
     (if i < NUM_CPU_REGS then
        (case is_bit_set B register_map i of
           Inl e \<Rightarrow> Inl e
         | Inr is_oop \<Rightarrow>
            (case get_hotspot_reg B i of
               Inl e \<Rightarrow> Inl e
             | Inr reg \<Rightarrow>
                 if is_oop then
                   (case vm_assert B (OOP_ALLOWED ! i)
                           ''this register may never be an oop, register map misaligned?'' of
                      Inl e \<Rightarrow> Inl e
                    | Inr _ \<Rightarrow> register_loop B register_map (i + 1) (om_add (set_oop reg) m))
                 else register_loop B register_map (i + 1) (om_add (set_value reg) m)))
      else Inr m)"
  by pat_completeness auto
termination
  by (relation "measure (\<lambda>(B, bm, i, m). NUM_CPU_REGS - i)") auto

text \<open>The loop over the stack slots (lines 91 to 100); HotSpot stack slots are 4 bytes.\<close>

function frame_loop :: "build \<Rightarrow> bit_map \<Rightarrow> nat \<Rightarrow> oop_map \<Rightarrow> error + oop_map" where
  "frame_loop B frame_map i m =
     (if i < bitmap_size frame_map then
        (case is_bit_set B frame_map i of
           Inl e \<Rightarrow> Inl e
         | Inr is_oop \<Rightarrow>
             let reg = stack2reg (i * 2) in
             if is_oop then frame_loop B frame_map (i + 1) (om_add (set_oop reg) m)
             else frame_loop B frame_map (i + 1) (om_add (set_value reg) m))
      else Inr m)"
  by pat_completeness auto
termination
  by (relation "measure (\<lambda>(B, bm, i, m). bitmap_size bm - i)") auto

definition create_oop_map :: "build \<Rightarrow> jint \<Rightarrow> jint \<Rightarrow> ref_maps \<Rightarrow> error + oop_map" where
  "create_oop_map B total_frame_size parameter_count debug_info =
     (let m = new_OopMap total_frame_size parameter_count in
      case (case registerRefMap debug_info of
              None \<Rightarrow> Inr m
            | Some register_map \<Rightarrow> register_loop B register_map 0 m) of
        Inl e \<Rightarrow> Inl e
      | Inr m' \<Rightarrow> frame_loop B (frameRefMap debug_info) 0 m')"


subsection \<open>Values of the compiler\<close>

datatype basic_type =
    T_BOOLEAN | T_CHAR | T_FLOAT | T_DOUBLE | T_BYTE | T_SHORT | T_INT | T_LONG
  | T_OBJECT | T_ARRAY | T_VOID | T_ADDRESS | T_NARROWOOP | T_CONFLICT | T_ILLEGAL

text \<open>
  A \<^verbatim>\<open>Kind\<close>: its type character, and the basic type that
  \<^verbatim>\<open>GraalCompiler::kindToBasicType\<close> gives for that character (the table is in
  graalCompiler.cpp).
\<close>

record kind =
  typeChar :: char
  kindToBasicType :: basic_type

text \<open>
  A Java object as far as the installer looks at it: null, a
  \<^verbatim>\<open>HotSpotResolvedObjectType\<close> with its \<^verbatim>\<open>metaspaceKlass\<close>, a string, or
  another object.
\<close>

datatype oop =
    NULL_oop
  | HotSpotResolvedObjectType address
  | String_oop nat
  | Other_oop nat

text \<open>
  A \<^verbatim>\<open>Value\<close>. A virtual object is a reference (an index) into the list of the
  \<^verbatim>\<open>VirtualObject\<close> instances of the compilation result, so that a virtual object
  can be one of its own field values, directly or through others.
\<close>

datatype graal_value =
    ILLEGAL
  | RegisterValue kind jint
  | StackSlot kind jint bool
  | Constant kind jlong oop
  | VirtualObject kind nat
  | code_MonitorValue kind graal_value graal_value bool
  | Other_Value kind

datatype klass = longArrayKlassObj | Other_klass nat

record virtual_object =
  vo_id :: jint
  vo_javaMirror :: oop
  vo_klass :: klass
  vo_values :: "graal_value list"

type_synonym vo_heap = "virtual_object list"

fun value_kind :: "graal_value \<Rightarrow> kind option" where
  "value_kind ILLEGAL = None"
| "value_kind (RegisterValue k number) = Some k"
| "value_kind (StackSlot k offset addFrameSize) = Some k"
| "value_kind (Constant k prim obj) = Some k"
| "value_kind (VirtualObject k h) = Some k"
| "value_kind (code_MonitorValue k owner lockData eliminated) = Some k"
| "value_kind (Other_Value k) = Some k"

subsection \<open>Scope values of the runtime\<close>

datatype location_type =
    Location_invalid | Location_normal | Location_oop | Location_int_in_long
  | Location_lng | Location_float_in_dbl | Location_dbl | Location_addr | Location_narrowoop

datatype location =
    new_stk_loc location_type jint
  | new_reg_loc location_type vmreg

text \<open>
  An \<^verbatim>\<open>ObjectValue\<close> is allocated once and then referred to by pointer; its pointer
  is the number of the allocation. The other scope values are compared by their contents
  only, except in \<^verbatim>\<open>get_monitor_value\<close>, where the pointer comparison of the second
  slot with the first is the comparison of the contents: the second slot is null, the
  first value itself, or a new \<^verbatim>\<open>ConstantIntValue\<close> next to a
  \<^verbatim>\<open>ConstantLongValue\<close>.
\<close>

datatype scope_value =
    LocationValue location
  | ConstantIntValue jint
  | ConstantLongValue jlong
  | ConstantOopWriteValue oop
  | ObjectValue_at nat

record object_value =
  ov_id :: jint
  ov_klass :: scope_value
  ov_field_values :: "scope_value list"

datatype monitor_value = MonitorValue scope_value location bool

text \<open>
  What value translation works on: the list \<^verbatim>\<open>objects\<close> (each entry the pointer of
  an \<^verbatim>\<open>ObjectValue\<close> with the object behind it), the pointer the next
  \<^verbatim>\<open>new ObjectValue\<close> returns, and the metadata looked up in the oop recorder
  (\<^verbatim>\<open>find_index\<close>), in call order.
\<close>

record translation =
  objects :: "(nat \<times> object_value) list"
  next_ObjectValue :: nat
  oop_recorder :: "address list"

subsection \<open>The value translator\<close>

text \<open>\<^verbatim>\<open>record_metadata_in_constant\<close> (lines 106 to 124).\<close>

definition record_metadata_in_constant ::
  "build \<Rightarrow> kind \<Rightarrow> jlong \<Rightarrow> oop \<Rightarrow> address list \<Rightarrow> error + address list" where
  "record_metadata_in_constant B k prim obj rec =
     (if typeChar k = CHR ''j'' then
        (case obj of
           NULL_oop \<Rightarrow> Inr rec
         | HotSpotResolvedObjectType klass \<Rightarrow>
             (case vm_assert B (prim = klass) ''%s @ %p != %p'' of
                Inl e \<Rightarrow> Inl e
              | Inr _ \<Rightarrow> Inr (rec @ [klass]))
         | String_oop s \<Rightarrow> Inr rec
         | Other_oop x \<Rightarrow>
             (case vm_assert B False ''unexpected annotation type (%s) for constant %ld (%p) of kind %c'' of
                Inl e \<Rightarrow> Inl e
              | Inr _ \<Rightarrow> Inr rec))
      else Inr rec)"

text \<open>The location type a value starts with (lines 133 and 134).\<close>

definition initial_locationType :: "basic_type \<Rightarrow> location_type" where
  "initial_locationType type =
     (if type = T_OBJECT \<or> type = T_ARRAY then Location_oop else Location_normal)"

text \<open>A \<^verbatim>\<open>RegisterValue\<close> (lines 136 to 164): the first value and the second slot.\<close>

definition register_value ::
  "build \<Rightarrow> basic_type \<Rightarrow> jint \<Rightarrow> error + (scope_value \<times> scope_value option)" where
  "register_value B type number =
     (let locationType = initial_locationType type in
      if sint number < 16 then
        (case (if type = T_INT \<or> type = T_FLOAT \<or> type = T_SHORT \<or> type = T_CHAR \<or>
                  type = T_BOOLEAN \<or> type = T_BYTE \<or> type = T_ADDRESS
               then Inr Location_int_in_long
               else if type = T_LONG then Inr Location_lng
               else (case vm_assert B (type = T_OBJECT \<or> type = T_ARRAY)
                            ''unexpected type in cpu register'' of
                       Inl e \<Rightarrow> Inl e
                     | Inr _ \<Rightarrow> Inr locationType)) of
           Inl e \<Rightarrow> Inl e
         | Inr locationType \<Rightarrow>
             let v = LocationValue (new_reg_loc locationType (as_Register_VMReg number))
             in Inr (v, if type = T_LONG then Some v else None))
      else
        (case vm_assert B (type = T_FLOAT \<or> type = T_DOUBLE)
                ''only float and double expected in xmm register'' of
           Inl e \<Rightarrow> Inl e
         | Inr _ \<Rightarrow>
             let locationType = (if type = T_FLOAT then Location_normal else Location_dbl);
                 v = LocationValue (new_reg_loc locationType (as_XMMRegister_VMReg (number - 16)))
             in Inr (v, if type = T_DOUBLE then Some v else None)))"

text \<open>A \<^verbatim>\<open>StackSlot\<close> (lines 165 to 179).\<close>

definition stack_slot_value ::
  "basic_type \<Rightarrow> jint \<Rightarrow> bool \<Rightarrow> jint \<Rightarrow> scope_value \<times> scope_value option" where
  "stack_slot_value type slot_offset addFrameSize total_frame_size =
     (let locationType = (if type = T_DOUBLE then Location_dbl
                          else if type = T_LONG then Location_lng
                          else initial_locationType type);
          offset = (if addFrameSize then slot_offset + total_frame_size else slot_offset);
          v = LocationValue (new_stk_loc locationType offset)
      in (v, if type = T_DOUBLE \<or> type = T_LONG then Some v else None))"

text \<open>
  A \<^verbatim>\<open>Constant\<close> (lines 180 to 198). \<^verbatim>\<open>*(jint*)&prim\<close> reads the first four
  bytes of the 64-bit primitive: its low half on a little-endian machine, its high half
  otherwise. A constant of another type falls through to \<^verbatim>\<open>ShouldNotReachHere\<close>.
\<close>

definition jint_of_prim :: "build \<Rightarrow> jlong \<Rightarrow> jint" where
  "jint_of_prim B prim = (if VM_LITTLE_ENDIAN B then ucast prim else ucast (drop_bit 32 prim))"

definition constant_value ::
  "build \<Rightarrow> kind \<Rightarrow> jlong \<Rightarrow> oop \<Rightarrow> address list \<Rightarrow>
     error + (scope_value \<times> scope_value option \<times> address list)" where
  "constant_value B k prim obj rec =
     (let type = kindToBasicType k in
      case record_metadata_in_constant B k prim obj rec of
        Inl e \<Rightarrow> Inl e
      | Inr rec' \<Rightarrow>
          if type = T_INT \<or> type = T_FLOAT \<or> type = T_SHORT \<or> type = T_CHAR \<or>
             type = T_BOOLEAN \<or> type = T_BYTE
          then Inr (ConstantIntValue (jint_of_prim B prim), None, rec')
          else if type = T_LONG \<or> type = T_DOUBLE
          then Inr (ConstantLongValue prim, Some (ConstantIntValue 0), rec')
          else if type = T_OBJECT
          then (if obj = NULL_oop then Inr (ConstantOopWriteValue NULL_oop, None, rec')
                else Inr (ConstantOopWriteValue obj, None, rec'))
          else if type = T_ADDRESS
          then Inr (ConstantLongValue prim, None, rec')
          else Inl ShouldNotReachHere)"

text \<open>\<^verbatim>\<open>sv->field_values()->append(x)\<close> for the object value with pointer \<open>a\<close>.\<close>

definition append_field :: "nat \<Rightarrow> scope_value \<Rightarrow> translation \<Rightarrow> translation" where
  "append_field a x T =
     T\<lparr>objects := map (\<lambda>(b, obj). if b = a
                                   then (b, obj\<lparr>ov_field_values := ov_field_values obj @ [x]\<rparr>)
                                   else (b, obj)) (objects T)\<rparr>"

text \<open>
  The padding of a field of a long array that has no second slot (lines 221 to 230),
  and the two appends (lines 232 to 235).
\<close>

definition pad_long_array ::
  "build \<Rightarrow> bool \<Rightarrow> scope_value \<Rightarrow> scope_value option \<Rightarrow> scope_value \<times> scope_value option" where
  "pad_long_array B isLongArray v cur_second =
     (if isLongArray \<and> cur_second = None then
        (if VM_LITTLE_ENDIAN B then (v, Some (ConstantIntValue 0))
         else (ConstantIntValue 0, Some v))
      else (v, cur_second))"

definition append_field_values ::
  "nat \<Rightarrow> scope_value \<Rightarrow> scope_value option \<Rightarrow> translation \<Rightarrow> translation" where
  "append_field_values a v cur_second T =
     append_field a v (case cur_second of None \<Rightarrow> T | Some s \<Rightarrow> append_field a s T)"

text \<open>The search of \<^verbatim>\<open>objects\<close> for an object value with the id (lines 206 to 211).\<close>

definition find_object :: "jint \<Rightarrow> translation \<Rightarrow> (nat \<times> object_value) option" where
  "find_object i T = find (\<lambda>(a, obj). ov_id obj = i) (objects T)"

text \<open>\<^verbatim>\<open>new ObjectValue(id, klass)\<close> and \<^verbatim>\<open>objects->append(sv)\<close> (lines 213, 214).\<close>

definition new_ObjectValue :: "virtual_object \<Rightarrow> translation \<Rightarrow> nat \<times> translation" where
  "new_ObjectValue vo T =
     (let a = next_ObjectValue T;
          sv = \<lparr>ov_id = vo_id vo, ov_klass = ConstantOopWriteValue (vo_javaMirror vo),
                ov_field_values = []\<rparr>
      in (a, T\<lparr>objects := objects T @ [(a, sv)], next_ObjectValue := a + 1\<rparr>))"

text \<open>The ids that \<^verbatim>\<open>objects\<close> holds, and the ids of the virtual objects not among them.\<close>

definition seen_ids :: "translation \<Rightarrow> jint set" where
  "seen_ids T = set (map (\<lambda>(a, obj). ov_id obj) (objects T))"

definition unseen :: "vo_heap \<Rightarrow> translation \<Rightarrow> nat" where
  "unseen H T = card (set (map vo_id H) - seen_ids T)"


text \<open>
  \<^verbatim>\<open>get_hotspot_value\<close> (lines 126 to 244) returns the scope value and, through
  \<^verbatim>\<open>second\<close>, the second slot. \<open>field_loop\<close> is its loop over the field values
  of a virtual object (lines 217 to 236), for the object value with pointer \<open>a\<close>. The
  new object value is appended to \<^verbatim>\<open>objects\<close> before the loop runs.
\<close>


function (sequential) get_hotspot_value ::
    "build \<Rightarrow> vo_heap \<Rightarrow> jint \<Rightarrow> translation \<Rightarrow> graal_value \<Rightarrow>
       error + (scope_value \<times> scope_value option \<times> translation)"
  and field_loop ::
    "build \<Rightarrow> vo_heap \<Rightarrow> jint \<Rightarrow> bool \<Rightarrow> nat \<Rightarrow> translation \<Rightarrow> graal_value list \<Rightarrow>
       error + translation"
where
  "get_hotspot_value B H total_frame_size T ILLEGAL =
     Inr (LocationValue (new_stk_loc Location_invalid 0), None, T)"
| "get_hotspot_value B H total_frame_size T (RegisterValue k number) =
     (case register_value B (kindToBasicType k) number of
        Inl e \<Rightarrow> Inl e
      | Inr (v, second) \<Rightarrow> Inr (v, second, T))"
| "get_hotspot_value B H total_frame_size T (StackSlot k slot_offset addFrameSize) =
     (case stack_slot_value (kindToBasicType k) slot_offset addFrameSize total_frame_size of
        (v, second) \<Rightarrow> Inr (v, second, T))"
| "get_hotspot_value B H total_frame_size T (Constant k prim obj) =
     (case constant_value B k prim obj (oop_recorder T) of
        Inl e \<Rightarrow> Inl e
      | Inr (v, second, rec) \<Rightarrow> Inr (v, second, T\<lparr>oop_recorder := rec\<rparr>))"
| "get_hotspot_value B H total_frame_size T (VirtualObject k h) =
     (if h < length H then
        (case find_object (vo_id (H ! h)) T of
           Some (a, obj) \<Rightarrow> Inr (ObjectValue_at a, None, T)
         | None \<Rightarrow>
             (case field_loop B H total_frame_size (vo_klass (H ! h) = longArrayKlassObj)
                     (fst (new_ObjectValue (H ! h) T)) (snd (new_ObjectValue (H ! h) T))
                     (vo_values (H ! h)) of
                Inl e \<Rightarrow> Inl e
              | Inr T' \<Rightarrow> Inr (ObjectValue_at (fst (new_ObjectValue (H ! h) T)), None, T')))
      else Inl (Undefined ''not a reference to a virtual object''))"
| "get_hotspot_value B H total_frame_size T (code_MonitorValue k owner lockData eliminated) =
     Inl ShouldNotReachHere"
| "get_hotspot_value B H total_frame_size T (Other_Value k) = Inl ShouldNotReachHere"
| "field_loop B H total_frame_size isLongArray a T [] = Inr T"
| "field_loop B H total_frame_size isLongArray a T (f # fs) =
     (case get_hotspot_value B H total_frame_size T f of
        Inl e \<Rightarrow> Inl e
      | Inr (v, cur_second, T') \<Rightarrow>
          (case pad_long_array B isLongArray v cur_second of
             (v', cur_second') \<Rightarrow>
               field_loop B H total_frame_size isLongArray a
                 (append_field_values a v' cur_second' T') fs))"
  by pat_completeness auto

text \<open>
  Termination: a virtual object is expanded only when \<^verbatim>\<open>objects\<close> has no object
  value with its id, and the expansion adds one, so the number of ids of virtual objects
  that \<^verbatim>\<open>objects\<close> lacks decreases.
\<close>

lemma objects_append_field:
  "objects (append_field a x T) = map (\<lambda>(b, obj). if b = a
            then (b, obj\<lparr>ov_field_values := ov_field_values obj @ [x]\<rparr>)
            else (b, obj)) (objects T)"
  by (simp add: append_field_def)

lemma seen_ids_append_field [simp]: "seen_ids (append_field a x T) = seen_ids T"
proof -
  have h: "map (\<lambda>(a, obj). ov_id obj) (map (\<lambda>(b, obj). if b = a
            then (b, obj\<lparr>ov_field_values := ov_field_values obj @ [x]\<rparr>)
            else (b, obj)) xs) = map (\<lambda>(a, obj). ov_id obj) xs" for xs
    by (induction xs) (auto split: prod.splits)
  show ?thesis
    unfolding seen_ids_def objects_append_field h ..
qed

lemma seen_ids_append_field_values [simp]: "seen_ids (append_field_values a v s T) = seen_ids T"
  by (simp add: append_field_values_def split: option.splits)

lemma seen_ids_oop_recorder [simp]: "seen_ids (T\<lparr>oop_recorder := r\<rparr>) = seen_ids T"
  by (simp add: seen_ids_def)

lemma seen_ids_new_ObjectValue [simp]:
  "seen_ids (snd (new_ObjectValue vo T)) = insert (vo_id vo) (seen_ids T)"
  by (simp add: seen_ids_def new_ObjectValue_def Let_def)

lemma find_object_None: "find_object i T = None \<longleftrightarrow> i \<notin> seen_ids T"
  by (auto simp: find_object_def seen_ids_def find_None_iff image_iff split: prod.splits)

lemma seen_mono_dom:
  "get_hotspot_value_field_loop_dom (Inl (B, H, tfs, T, v)) \<Longrightarrow>
     get_hotspot_value B H tfs T v = Inr (x, s, T') \<Longrightarrow> seen_ids T \<subseteq> seen_ids T'"
  "get_hotspot_value_field_loop_dom (Inr (B, H, tfs, la, a, T, fs)) \<Longrightarrow>
     field_loop B H tfs la a T fs = Inr T' \<Longrightarrow> seen_ids T \<subseteq> seen_ids T'"
proof (induction B H tfs T v and B H tfs la a T fs arbitrary: x s T' and T'
       rule: get_hotspot_value_field_loop.pinduct)
  case (1 B H total_frame_size T)
  then show ?case by (simp add: get_hotspot_value.psimps)
next
  case (2 B H total_frame_size T k number)
  then show ?case by (auto simp: get_hotspot_value.psimps split: sum.splits)
next
  case (3 B H total_frame_size T k slot_offset addFrameSize)
  then show ?case by (auto simp: get_hotspot_value.psimps split: prod.splits)
next
  case (4 B H total_frame_size T k prim obj)
  then show ?case by (auto simp: get_hotspot_value.psimps split: sum.splits)
next
  case (5 B H total_frame_size T k h)
  note eq = get_hotspot_value.psimps(5)[OF "5.hyps"]
  show ?case
  proof (cases "h < length H")
    case False
    with "5.prems" eq show ?thesis by simp
  next
    case True
    show ?thesis
    proof (cases "find_object (vo_id (H ! h)) T")
      case (Some p)
      with eq True "5.prems" show ?thesis by (simp split: prod.splits)
    next
      case None
      with True eq "5.prems"
      have "field_loop B H total_frame_size (vo_klass (H ! h) = longArrayKlassObj)
              (fst (new_ObjectValue (H ! h) T)) (snd (new_ObjectValue (H ! h) T))
              (vo_values (H ! h)) = Inr T'"
        by (simp split: sum.splits)
      from "5.IH"[OF True None this] show ?thesis by simp
    qed
  qed
next
  case (6 B H total_frame_size T k owner lockData eliminated)
  then show ?case by (simp add: get_hotspot_value.psimps)
next
  case (7 B H total_frame_size T k)
  then show ?case by (simp add: get_hotspot_value.psimps)
next
  case (8 B H total_frame_size isLongArray a T)
  then show ?case by (simp add: field_loop.psimps)
next
  case (9 B H total_frame_size isLongArray a T f fs)
  note eq = field_loop.psimps(2)[OF "9.hyps"]
  from eq "9.prems" obtain v cs T1 where
    g: "get_hotspot_value B H total_frame_size T f = Inr (v, cs, T1)"
    by (cases "get_hotspot_value B H total_frame_size T f") auto
  obtain v' cs' where p: "pad_long_array B isLongArray v cs = (v', cs')"
    by (cases "pad_long_array B isLongArray v cs") 
  from eq "9.prems" g p have
    r: "field_loop B H total_frame_size isLongArray a (append_field_values a v' cs' T1) fs = Inr T'"
    by simp
  have "seen_ids T \<subseteq> seen_ids T1"
    using "9.IH"(1)[OF g] .
  moreover have "seen_ids (append_field_values a v' cs' T1) \<subseteq> seen_ids T'"
    using "9.IH"(2)[OF g _ _ p[symmetric] r] by simp
  ultimately show ?case by simp
qed


lemma unseen_le: "seen_ids T \<subseteq> seen_ids T' \<Longrightarrow> unseen H T' \<le> unseen H T"
  unfolding unseen_def by (intro card_mono) auto

lemma unseen_new_ObjectValue:
  "h < length H \<Longrightarrow> find_object (vo_id (H ! h)) T = None \<Longrightarrow>
     unseen H (snd (new_ObjectValue (H ! h) T)) < unseen H T"
  unfolding unseen_def
  by (intro psubset_card_mono) (auto simp: find_object_None)

lemma get_hotspot_value_total: "All get_hotspot_value_field_loop_dom"
proof (rule "get_hotspot_value_field_loop.termination"
         [where R = "inv_image (less_than <*lex*> less_than)
            (\<lambda>x. case x of Inl (B, H, tfs, T, v) \<Rightarrow> (unseen H T, 0)
                      | Inr (B, H, tfs, la, a, T, fs) \<Rightarrow> (unseen H T, Suc (length fs)))"],
       goal_cases)
  case 1
  show ?case by (intro wf_inv_image wf_lex_prod wf_less_than)
next
  case (2 B H total_frame_size T k h)
  then show ?case by (simp add: unseen_new_ObjectValue)
next
  case (3 B H total_frame_size isLongArray a T f fs)
  then show ?case by simp
next
  case (4 B H total_frame_size isLongArray a T f fs x2 x y xa ya x1 x2a)
  then have "seen_ids T \<subseteq> seen_ids ya"
    using seen_mono_dom(1) by blast
  then have "unseen H (append_field_values a x1 x2a ya) \<le> unseen H T"
    by (intro unseen_le) simp
  then show ?case by (simp add: le_less)
qed

termination get_hotspot_value
  by (rule get_hotspot_value_total)


declare get_hotspot_value.simps [simp del] field_loop.simps [simp del]

subsection \<open>Monitors\<close>

text \<open>\<^verbatim>\<open>get_monitor_value\<close> (lines 246 to 264).\<close>

fun is_location :: "scope_value \<Rightarrow> bool" where
  "is_location (LocationValue l) = True"
| "is_location v = False"

fun get_monitor_value ::
  "build \<Rightarrow> vo_heap \<Rightarrow> jint \<Rightarrow> translation \<Rightarrow> graal_value \<Rightarrow>
     error + (monitor_value \<times> translation)" where
  "get_monitor_value B H total_frame_size T (code_MonitorValue k owner lockData eliminated) =
     (case get_hotspot_value B H total_frame_size T owner of
        Inl e \<Rightarrow> Inl e
      | Inr (owner_value, second, T1) \<Rightarrow>
     (case vm_assert B (second = None) ''monitor cannot occupy two stack slots'' of
        Inl e \<Rightarrow> Inl e
      | Inr _ \<Rightarrow>
     (case get_hotspot_value B H total_frame_size T1 lockData of
        Inl e \<Rightarrow> Inl e
      | Inr (lock_data_value, second, T2) \<Rightarrow>
     (case vm_assert B (second = Some lock_data_value)
             ''monitor is LONG value that occupies two stack slots'' of
        Inl e \<Rightarrow> Inl e
      | Inr _ \<Rightarrow>
     (case vm_assert B (is_location lock_data_value) ''invalid monitor location'' of
        Inl e \<Rightarrow> Inl e
      | Inr _ \<Rightarrow>
     (case lock_data_value of
        LocationValue lock_data_loc \<Rightarrow>
          Inr (MonitorValue owner_value lock_data_loc (if eliminated then True else False), T2)
      | _ \<Rightarrow> Inl (Undefined ''LocationValue cast of another scope value'')))))))"
| "get_monitor_value B H total_frame_size T v =
     Inl (GuaranteeFailed ''Monitors must be of type MonitorValue'')"

subsection \<open>The scope recorder\<close>

text \<open>
  A \<^verbatim>\<open>BytecodeFrame\<close> with the fields of \<^verbatim>\<open>BytecodePosition\<close> it inherits.
  The caller is a \<^verbatim>\<open>BytecodePosition\<close>; \<open>is_BytecodeFrame\<close> tells whether the
  object is of class \<^verbatim>\<open>BytecodeFrame\<close> itself, as the recorder expects.
\<close>

datatype frame =
  BytecodePosition
    (f_caller: "frame option")
    (f_method: nat)
    (f_bci: jint)
    (f_values: "graal_value list")
    (numLocals: jint)
    (numStack: jint)
    (numLocks: jint)
    (rethrowException: bool)
    (duringCall: bool)
    (leafGraphId: jlong)
    (is_BytecodeFrame: bool)

text \<open>The lists a frame's values are sorted into.\<close>

record scope_lists =
  locals :: "scope_value list"
  expressions :: "scope_value list"
  monitors :: "monitor_value list"

text \<open>
  The arguments of \<^verbatim>\<open>describe_scope\<close> that vary (the caller is always null, the
  two flags after \<^verbatim>\<open>throw_exception\<close> are always false and the list of deferred
  writes is always empty), and the calls the installer makes on the debug information
  recorder.
\<close>

record scope_desc =
  sd_pc_offset :: jint
  sd_method :: nat
  sd_bci :: jint
  sd_reexecute :: bool
  sd_throw_exception :: bool
  sd_locals :: "scope_value list"
  sd_expressions :: "scope_value list"
  sd_monitors :: "monitor_value list"

datatype recorder_call =
    add_safepoint jint jlong oop_map
  | dump_object_pool "(nat \<times> object_value) list"
  | describe_scope scope_desc
  | end_safepoint jint

text \<open>
  The body of the loop over the values of a frame, up to the test of \<^verbatim>\<open>second\<close>
  (lines 493 to 510): the value at index \<open>i\<close> goes to the locals, the expressions or the
  monitors. The result carries \<^verbatim>\<open>second\<close>, which \<^verbatim>\<open>get_monitor_value\<close> leaves
  null.
\<close>

definition record_value ::
  "build \<Rightarrow> vo_heap \<Rightarrow> jint \<Rightarrow> jint \<Rightarrow> jint \<Rightarrow> nat \<Rightarrow> graal_value \<Rightarrow>
     scope_lists \<Rightarrow> translation \<Rightarrow> error + (scope_value option \<times> scope_lists \<times> translation)" where
  "record_value B H total_frame_size local_count expression_count i v L T =
     (if int i < sint local_count then
        (case get_hotspot_value B H total_frame_size T v of
           Inl e \<Rightarrow> Inl e
         | Inr (first, second, T') \<Rightarrow>
             Inr (second,
                  L\<lparr>locals := locals L @ (case second of None \<Rightarrow> [] | Some s \<Rightarrow> [s]) @ [first]\<rparr>,
                  T'))
      else if int i < sint (local_count + expression_count) then
        (case get_hotspot_value B H total_frame_size T v of
           Inl e \<Rightarrow> Inl e
         | Inr (first, second, T') \<Rightarrow>
             Inr (second,
                  L\<lparr>expressions :=
                      expressions L @ (case second of None \<Rightarrow> [] | Some s \<Rightarrow> [s]) @ [first]\<rparr>,
                  T'))
      else
        (case get_monitor_value B H total_frame_size T v of
           Inl e \<Rightarrow> Inl e
         | Inr (m, T') \<Rightarrow> Inr (None, L\<lparr>monitors := monitors L @ [m]\<rparr>, T')))"

text \<open>The loop over the values of a frame (lines 492 to 516), from index \<open>i\<close> on.\<close>

function values_loop ::
  "build \<Rightarrow> vo_heap \<Rightarrow> jint \<Rightarrow> jint \<Rightarrow> jint \<Rightarrow> graal_value list \<Rightarrow> nat \<Rightarrow>
     scope_lists \<Rightarrow> translation \<Rightarrow> error + (scope_lists \<times> translation)" where
  "values_loop B H total_frame_size local_count expression_count vals i L T =
     (if i < length vals then
        (case record_value B H total_frame_size local_count expression_count i (vals ! i) L T of
           Inl e \<Rightarrow> Inl e
         | Inr (second, L', T') \<Rightarrow>
             if second \<noteq> None then
               (case vm_assert B (i + 1 < length vals)
                       ''double-slot value not followed by Value.ILLEGAL'' of
                  Inl e \<Rightarrow> Inl e
                | Inr _ \<Rightarrow>
               (case vm_assert B (vals ! (i + 1) = ILLEGAL)
                       ''double-slot value not followed by Value.ILLEGAL'' of
                  Inl e \<Rightarrow> Inl e
                | Inr _ \<Rightarrow>
                    values_loop B H total_frame_size local_count expression_count vals
                      (i + 1 + 1) L' T'))
             else values_loop B H total_frame_size local_count expression_count vals (i + 1) L' T')
      else Inr (L, T))"
  by pat_completeness auto
termination
  by (relation "measure (\<lambda>(B, H, tfs, lc, ec, vals, i, L, T). length vals - i)") auto

text \<open>
  The re-execution flag (lines 461 to 470). \<open>interp\<close> stands for the interpreter's answer
  \<^verbatim>\<open>Interpreter::bytecode_should_reexecute\<close> for the bytecode of the method at the bci.
\<close>

definition reexecute_flag :: "(nat \<Rightarrow> jint \<Rightarrow> bool) \<Rightarrow> frame option \<Rightarrow> nat \<Rightarrow> jint \<Rightarrow> bool \<Rightarrow> bool" where
  "reexecute_flag interp frame_ptr method bci during_call =
     (if bci = - 1 \<or> bci = - 2 then False
      else (let reexecute = interp method bci
            in if frame_ptr \<noteq> None then (during_call = False) else reexecute))"

text \<open>
  \<^verbatim>\<open>record_scope\<close> (lines 451 to 531), for a frame that is not null. It works on the
  list \<^verbatim>\<open>objects\<close> (in the translation) and on the calls made so far on the debug
  information recorder. Reading the fields of a \<^verbatim>\<open>BytecodeFrame\<close> from an object of
  another class is undefined.
\<close>

fun record_scope ::
  "build \<Rightarrow> (nat \<Rightarrow> jint \<Rightarrow> bool) \<Rightarrow> vo_heap \<Rightarrow> jint \<Rightarrow> jint \<Rightarrow> frame \<Rightarrow>
     translation \<times> recorder_call list \<Rightarrow> error + (translation \<times> recorder_call list)" where
  "record_scope B interp H total_frame_size pc_offset
      (BytecodePosition caller_frame method bci vals local_count expression_count monitor_count
         rethrow during_call leaf is_frame) (T, rec) =
     (case vm_assert B is_frame ''BytecodeFrame expected'' of
        Inl e \<Rightarrow> Inl e
      | Inr _ \<Rightarrow>
     (case (case caller_frame of
              None \<Rightarrow> Inr (T, rec)
            | Some c \<Rightarrow> record_scope B interp H total_frame_size pc_offset c (T, rec)) of
        Inl e \<Rightarrow> Inl e
      | Inr (T1, rec1) \<Rightarrow>
          if \<not> is_frame then Inl (Undefined ''BytecodeFrame field of another object'')
          else
            let reexecute =
                  reexecute_flag interp
                    (Some (BytecodePosition caller_frame method bci vals local_count
                             expression_count monitor_count rethrow during_call leaf is_frame))
                    method bci during_call
            in
            (case vm_assert B
                    (sint (local_count + expression_count + monitor_count) = int (length vals))
                    ''unexpected values length'' of
               Inl e \<Rightarrow> Inl e
             | Inr _ \<Rightarrow>
            (case values_loop B H total_frame_size local_count expression_count vals 0
                    \<lparr>locals = [], expressions = [], monitors = []\<rparr> T1 of
               Inl e \<Rightarrow> Inl e
             | Inr (L, T2) \<Rightarrow>
                 Inr (T2,
                      rec1 @
                      [dump_object_pool (objects T2),
                       describe_scope
                         \<lparr>sd_pc_offset = pc_offset, sd_method = method, sd_bci = bci,
                          sd_reexecute = reexecute, sd_throw_exception = (rethrow = True),
                          sd_locals = locals L, sd_expressions = expressions L,
                          sd_monitors = monitors L\<rparr>])))))"

text \<open>\<^verbatim>\<open>record_scope\<close> for the frame pointer a site gives, which may be null.\<close>

definition record_scope_at ::
  "build \<Rightarrow> (nat \<Rightarrow> jint \<Rightarrow> bool) \<Rightarrow> vo_heap \<Rightarrow> jint \<Rightarrow> jint \<Rightarrow> frame option \<Rightarrow>
     translation \<times> recorder_call list \<Rightarrow> error + (translation \<times> recorder_call list)" where
  "record_scope_at B interp H total_frame_size pc_offset frame_ptr S =
     (case frame_ptr of
        None \<Rightarrow> Inl (Undefined ''null frame'')
      | Some frame \<Rightarrow> record_scope B interp H total_frame_size pc_offset frame S)"


subsection \<open>Sites and the state of the installer\<close>

text \<open>
  The id of a mark, by the name the enumeration \<^verbatim>\<open>MarkId\<close> gives it in the switch of
  \<^verbatim>\<open>site_Mark\<close>; an integer that none of these enumerators names is
  \<open>unrecognized_mark\<close>.
\<close>

datatype mark_id =
    MARK_UNVERIFIED_ENTRY
  | MARK_VERIFIED_ENTRY
  | MARK_OSR_ENTRY
  | MARK_EXCEPTION_HANDLER_ENTRY
  | MARK_DEOPT_HANDLER_ENTRY
  | MARK_STATIC_CALL_STUB
  | MARK_INVOKEVIRTUAL
  | MARK_INVOKEINTERFACE
  | MARK_INLINE_INVOKEVIRTUAL
  | MARK_INVOKE_INVALID
  | MARK_INVOKESPECIAL
  | MARK_INVOKESTATIC
  | MARK_IMPLICIT_NULL
  | MARK_POLL_NEAR
  | MARK_POLL_FAR
  | MARK_POLL_RETURN_NEAR
  | MARK_POLL_RETURN_FAR
  | MARK_KLASS_PATCHING
  | MARK_ACCESS_FIELD_PATCHING
  | MARK_DUMMY_OOP_RELOCATION
  | unrecognized_mark jint

text \<open>
  The target of a call: a boxed \<^verbatim>\<open>Long\<close> (the id of a runtime stub), an installed
  code unit (with the verified entry point of its nmethod), or a Java method (unresolved,
  or resolved and then static or not).
\<close>

datatype call_target =
    Long_target jlong
  | HotSpotInstalledCode_target address
  | JavaMethod_target "bool option"

record debug_info = ref_maps +
  bytecodePosition :: "frame option"

datatype site =
    Call jint call_target "debug_info option"
  | Safepoint jint "debug_info option"
  | DataPatch jint kind jlong oop int bool
  | Mark jint "mark_id option" "jint list"
  | Other_site jint

text \<open>
  What the decoders of the platform (\<^verbatim>\<open>nativeInstruction_at\<close>,
  \<^verbatim>\<open>Assembler::locate_operand\<close> and the like) read in the instructions at an
  address. The installer's own writes are recorded as operations on the code buffer.
\<close>

datatype native_instruction =
    is_call
  | is_jump
  | is_mov_literal64
  | is_call_reg jint
  | other_instruction

datatype operand_format = imm_operand | disp32_operand | call32_operand

record code_view =
  nativeInstruction_at :: "address \<Rightarrow> native_instruction"
  byte_at :: "address \<Rightarrow> u_char"
  mov_const_reg_data :: "address \<Rightarrow> jlong"
  mov_reg_mem_offset :: "address \<Rightarrow> jint"
  locate_operand :: "address \<Rightarrow> operand_format \<Rightarrow> address"
  locate_next_instruction :: "address \<Rightarrow> address"
  poll_address :: address

datatype target_address =
    verified_entry_point address
  | getStub jlong
  | resolve_virtual_call_stub
  | resolve_static_call_stub
  | resolve_opt_virtual_call_stub
  | non_oop_word

datatype relocation =
    runtime_call_Relocation
  | virtual_call_Relocation "address option"
  | static_call_type
  | opt_virtual_call_type
  | section_word_Relocation address
  | oop_Relocation_immediate
  | metadata_Relocation_immediate
  | static_stub_Relocation address
  | poll_type
  | poll_return_type

datatype buffer_op =
    set_jump_destination address target_address
  | set_destination address target_address
  | set_data address target_address
  | set_offset address jint
  | relocate address relocation "operand_format option"
  | change_reloc_info_to_none address
  | store_jlong address jlong
  | store_jint address jint
  | store_jobject address oop
  | store_byte address u_char

datatype code_offset = Entry | Verified_Entry | OSR_Entry | Exceptions | Deopt

record installer =
  total_frame_size :: jint
  parameter_count :: jint
  next_call_type :: mark_id
  invoke_mark_pc :: "address option"
  debug_recorder :: "recorder_call list"
  heap_top :: nat
  metadata :: "address list"
  insts_start :: address
  consts_start :: address
  consts_size :: int
  consts_alignment :: int
  buffer_ops :: "buffer_op list"
  offsets :: "(code_offset \<times> jint) list"
  implicit_exception_table :: "(jint \<times> jint) list"

definition instruction_at :: "installer \<Rightarrow> jint \<Rightarrow> address" where
  "instruction_at st pc_offset = insts_start st + scast pc_offset"

definition emit :: "buffer_op list \<Rightarrow> installer \<Rightarrow> installer" where
  "emit ops st = st\<lparr>buffer_ops := buffer_ops st @ ops\<rparr>"

definition recorder_add :: "recorder_call list \<Rightarrow> installer \<Rightarrow> installer" where
  "recorder_add cs st = st\<lparr>debug_recorder := debug_recorder st @ cs\<rparr>"

text \<open>
  A safepoint with its scopes (lines 598 and 599, and 539 to 542):
  \<^verbatim>\<open>add_safepoint\<close> with a new oop map, then \<^verbatim>\<open>record_scope\<close> with a new, empty
  list \<^verbatim>\<open>objects\<close>. \<open>leaf\<close> gives the second argument of \<^verbatim>\<open>add_safepoint\<close>
  from the frame; \<^verbatim>\<open>site_Call\<close> reads the frame's \<^verbatim>\<open>leafGraphId\<close> for it, which
  needs the frame not to be null.
\<close>

definition safepoint_with_scopes ::
  "build \<Rightarrow> (nat \<Rightarrow> jint \<Rightarrow> bool) \<Rightarrow> vo_heap \<Rightarrow> jint \<Rightarrow> (frame option \<Rightarrow> error + jlong) \<Rightarrow>
     debug_info \<Rightarrow> installer \<Rightarrow> error + installer" where
  "safepoint_with_scopes B interp H pc leaf di st =
     (case leaf (bytecodePosition di) of
        Inl e \<Rightarrow> Inl e
      | Inr leaf_graph_id \<Rightarrow>
     (case create_oop_map B (total_frame_size st) (parameter_count st)
             \<lparr>registerRefMap = registerRefMap di, frameRefMap = frameRefMap di\<rparr> of
        Inl e \<Rightarrow> Inl e
      | Inr m \<Rightarrow>
     (case record_scope_at B interp H (total_frame_size st) pc (bytecodePosition di)
             (\<lparr>objects = [], next_ObjectValue = heap_top st, oop_recorder = metadata st\<rparr>,
              debug_recorder st @ [add_safepoint pc leaf_graph_id m]) of
        Inl e \<Rightarrow> Inl e
      | Inr (T, rec) \<Rightarrow>
          Inr (st\<lparr>debug_recorder := rec, heap_top := next_ObjectValue T,
                  metadata := oop_recorder T\<rparr>))))"

text \<open>\<^verbatim>\<open>site_Safepoint\<close> (lines 533 to 545).\<close>

definition site_Safepoint ::
  "build \<Rightarrow> (nat \<Rightarrow> jint \<Rightarrow> bool) \<Rightarrow> vo_heap \<Rightarrow> installer \<Rightarrow> jint \<Rightarrow> debug_info option \<Rightarrow>
     error + installer" where
  "site_Safepoint B interp H st pc_offset debug_info =
     (case vm_assert B (debug_info \<noteq> None) ''debug info expected'' of
        Inl e \<Rightarrow> Inl e
      | Inr _ \<Rightarrow>
     (case debug_info of
        None \<Rightarrow> Inl (Undefined ''null debug info'')
      | Some di \<Rightarrow>
     (case safepoint_with_scopes B interp H pc_offset (\<lambda>f. Inr (- 1)) di st of
        Inl e \<Rightarrow> Inl e
      | Inr st' \<Rightarrow> Inr (recorder_add [end_safepoint pc_offset] st'))))"

text \<open>
  The offset of the next instruction at a call site (lines 564 to 584). A
  \<^verbatim>\<open>mov\<close> of a 64-bit literal is followed by a call through a register, whose first
  two bytes the assertion looks at.
\<close>

definition call_next_pc_offset ::
  "build \<Rightarrow> code_view \<Rightarrow> installer \<Rightarrow> jint \<Rightarrow> bool \<Rightarrow>
     error + jint" where
  "call_next_pc_offset B C st pc_offset is_method =
     (case nativeInstruction_at C (instruction_at st pc_offset) of
        is_call \<Rightarrow> Inr (pc_offset + NativeCall_instruction_size B)
      | is_jump \<Rightarrow> Inr (pc_offset + NativeCall_instruction_size B)
      | is_mov_literal64 \<Rightarrow>
          (let next_pc_offset = pc_offset + NativeMovConstReg_instruction_size B;
               call = instruction_at st next_pc_offset
           in case vm_assert B ((byte_at C call = 0x40 \<or> byte_at C call = 0x41) \<and>
                                byte_at C (call + 1) = 0xFF)
                     ''expected call with rex/rexb prefix byte'' of
                Inl e \<Rightarrow> Inl e
              | Inr _ \<Rightarrow> Inr (next_pc_offset + 3))
      | is_call_reg next_instruction_offset \<Rightarrow>
          (case vm_assert B is_method ''only valid for virtual calls'' of
             Inl e \<Rightarrow> Inl e
           | Inr _ \<Rightarrow> Inr (pc_offset + next_instruction_offset))
      | other_instruction \<Rightarrow> Inl (Fatal ''unsupported type of instruction for call site''))"

text \<open>The patch of a call to a runtime stub (lines 602 to 620).\<close>

definition patch_stub_call :: "code_view \<Rightarrow> installer \<Rightarrow> jint \<Rightarrow> jlong \<Rightarrow> installer" where
  "patch_stub_call C st pc_offset global_stub =
     (let inst = instruction_at st pc_offset in
      case nativeInstruction_at C inst of
        is_call \<Rightarrow>
          emit [set_destination inst (getStub global_stub),
                relocate inst runtime_call_Relocation (Some call32_operand)] st
      | is_mov_literal64 \<Rightarrow>
          emit [set_data inst (getStub global_stub),
                relocate inst runtime_call_Relocation (Some imm_operand)] st
      | _ \<Rightarrow>
          emit [set_jump_destination inst (getStub global_stub),
                relocate inst runtime_call_Relocation (Some call32_operand)] st)"

text \<open>
  The patch of a call of a Java method, by the pending call type (lines 621 to 667).
  \<open>method\<close> is what the assertions know of the method: nothing when it is unresolved,
  else whether it is static.
\<close>

definition patch_method_call ::
  "build \<Rightarrow> installer \<Rightarrow> jint \<Rightarrow> bool option \<Rightarrow> bool \<Rightarrow> error + installer" where
  "patch_method_call B st pc_offset method has_debug_info =
     (let call = instruction_at st pc_offset in
      case vm_assert B has_debug_info ''debug info expected'' of
        Inl e \<Rightarrow> Inl e
      | Inr _ \<Rightarrow>
     (case next_call_type st of
        MARK_INLINE_INVOKEVIRTUAL \<Rightarrow> Inr st
      | MARK_INVOKEVIRTUAL \<Rightarrow>
          (case vm_assert B (method = None \<or> method = Some False)
                  ''cannot call static method with invokeinterface'' of
             Inl e \<Rightarrow> Inl e
           | Inr _ \<Rightarrow>
               Inr (emit [set_destination call resolve_virtual_call_stub,
                          relocate call (virtual_call_Relocation (invoke_mark_pc st))
                            (Some call32_operand)] st))
      | MARK_INVOKEINTERFACE \<Rightarrow>
          (case vm_assert B (method = None \<or> method = Some False)
                  ''cannot call static method with invokeinterface'' of
             Inl e \<Rightarrow> Inl e
           | Inr _ \<Rightarrow>
               Inr (emit [set_destination call resolve_virtual_call_stub,
                          relocate call (virtual_call_Relocation (invoke_mark_pc st))
                            (Some call32_operand)] st))
      | MARK_INVOKESTATIC \<Rightarrow>
          (case vm_assert B (method = None \<or> method = Some True)
                  ''cannot call non-static method with invokestatic'' of
             Inl e \<Rightarrow> Inl e
           | Inr _ \<Rightarrow>
               Inr (emit [set_destination call resolve_static_call_stub,
                          relocate call static_call_type (Some call32_operand)] st))
      | MARK_INVOKESPECIAL \<Rightarrow>
          (case vm_assert B (method = None \<or> method = Some False)
                  ''cannot call static method with invokespecial'' of
             Inl e \<Rightarrow> Inl e
           | Inr _ \<Rightarrow>
               Inr (emit [set_destination call resolve_opt_virtual_call_stub,
                          relocate call opt_virtual_call_type (Some call32_operand)] st))
      | _ \<Rightarrow> Inl (Fatal ''invalid _next_call_type value'')))"

text \<open>
  The safepoint of a call that carries debug information (lines 596 to 600), and the end
  of \<^verbatim>\<open>site_Call\<close> (lines 668 to 671).
\<close>

definition call_safepoint ::
  "build \<Rightarrow> (nat \<Rightarrow> jint \<Rightarrow> bool) \<Rightarrow> vo_heap \<Rightarrow> jint \<Rightarrow> debug_info option \<Rightarrow> installer \<Rightarrow>
     error + installer" where
  "call_safepoint B interp H next_pc_offset debug_info st =
     (case debug_info of
        None \<Rightarrow> Inr st
      | Some di \<Rightarrow>
          safepoint_with_scopes B interp H next_pc_offset
            (\<lambda>f. case f of None \<Rightarrow> Inl (Undefined ''null frame'')
                         | Some frame \<Rightarrow> Inr (leafGraphId frame))
            di st)"

definition finish_call :: "debug_info option \<Rightarrow> jint \<Rightarrow> installer \<Rightarrow> installer" where
  "finish_call debug_info next_pc_offset st =
     (let st' = st\<lparr>next_call_type := MARK_INVOKE_INVALID\<rparr>
      in if debug_info \<noteq> None then recorder_add [end_safepoint next_pc_offset] st' else st')"

text \<open>
  \<^verbatim>\<open>site_Call\<close> (lines 547 to 672). A target that is an installed code unit is not a
  \<^verbatim>\<open>Long\<close>, so it counts as a method until line 586 tells it apart, where the
  handler returns. The assertion that calls and jumps have the same size compares two
  constants of the platform.
\<close>

definition site_Call ::
  "build \<Rightarrow> code_view \<Rightarrow> (nat \<Rightarrow> jint \<Rightarrow> bool) \<Rightarrow> vo_heap \<Rightarrow> installer \<Rightarrow> jint \<Rightarrow> call_target \<Rightarrow>
     debug_info option \<Rightarrow> error + installer" where
  "site_Call B C interp H st pc_offset target debug_info =
     (let inst = instruction_at st pc_offset in
      case target of
        Long_target global_stub \<Rightarrow>
          (case call_next_pc_offset B C st pc_offset False of
             Inl e \<Rightarrow> Inl e
           | Inr next_pc_offset \<Rightarrow>
          (case call_safepoint B interp H next_pc_offset debug_info st of
             Inl e \<Rightarrow> Inl e
           | Inr st1 \<Rightarrow>
               Inr (finish_call debug_info next_pc_offset
                      (patch_stub_call C st1 pc_offset global_stub))))
      | HotSpotInstalledCode_target entry \<Rightarrow>
          (case call_next_pc_offset B C st pc_offset True of
             Inl e \<Rightarrow> Inl e
           | Inr next_pc_offset \<Rightarrow>
          (case vm_assert B (nativeInstruction_at C inst = is_jump) ''jump expected'' of
             Inl e \<Rightarrow> Inl e
           | Inr _ \<Rightarrow>
               Inr (emit [set_jump_destination inst (verified_entry_point entry),
                          relocate inst runtime_call_Relocation (Some call32_operand)] st)))
      | JavaMethod_target method \<Rightarrow>
          (case call_next_pc_offset B C st pc_offset True of
             Inl e \<Rightarrow> Inl e
           | Inr next_pc_offset \<Rightarrow>
          (case call_safepoint B interp H next_pc_offset debug_info st of
             Inl e \<Rightarrow> Inl e
           | Inr st1 \<Rightarrow>
          (case patch_method_call B st1 pc_offset method (debug_info \<noteq> None) of
             Inl e \<Rightarrow> Inl e
           | Inr st2 \<Rightarrow> Inr (finish_call debug_info next_pc_offset st2)))))"

text \<open>
  Modelled from the spec: \<^verbatim>\<open>align_size_up\<close>, a macro of globalDefinitions.hpp that is
  not among the sources at hand. The specification has the constant allocated ``respecting
  the requested alignment''. The macro aligns the way HotSpot aligns every size, by
  masking: the alignment less one is added and the bits of the alignment less one are
  cleared, \<^verbatim>\<open>(size + (alignment - 1)) & ~(alignment - 1)\<close>. For an alignment that is a
  power of two this is the next multiple of the alignment; for another alignment it need
  not be a multiple of it (size 8 and alignment 3 give 8).
\<close>

definition align_size_up :: "int \<Rightarrow> int \<Rightarrow> int" where
  "align_size_up sz alignment = (sz + (alignment - 1)) AND NOT (alignment - 1)"

definition BytesPerLong :: int where
  "BytesPerLong = 8"

text \<open>
  The out-of-line constant of a \<^verbatim>\<open>DataPatch\<close> (lines 699 to 716). The sizes of the
  constants section are \<^verbatim>\<open>int\<close>s far below \<open>2 ^ 31\<close> and are integers here; the
  displacement is the difference of two addresses, cut to 32 bits.
\<close>

definition patch_out_of_line ::
  "build \<Rightarrow> code_view \<Rightarrow> installer \<Rightarrow> address \<Rightarrow> jlong \<Rightarrow> int \<Rightarrow> error + installer" where
  "patch_out_of_line B C st instruction prim alignment =
     (let operand = locate_operand C instruction disp32_operand;
          next_instruction = locate_next_instruction C instruction;
          sz = consts_size st
      in
      case (if alignment > 0 then
              (case guarantee (alignment \<le> consts_alignment st)
                      ''Alignment inside constants section is restricted by alignment of section begin'' of
                 Inl e \<Rightarrow> Inl e
               | Inr _ \<Rightarrow> Inr (align_size_up sz alignment))
            else Inr sz) of
        Inl e \<Rightarrow> Inl e
      | Inr sz \<Rightarrow>
          (let dest = consts_start st + word_of_int sz;
               st1 = st\<lparr>consts_size := sz + BytesPerLong\<rparr>;
               disp = dest - next_instruction
           in case vm_assert B (disp = scast (ucast disp :: jint)) ''disp doesn't fit in 32 bits'' of
                Inl e \<Rightarrow> Inl e
              | Inr _ \<Rightarrow>
                  Inr (emit [store_jlong dest prim,
                             store_jint operand (ucast disp),
                             relocate instruction (section_word_Relocation dest)
                               (Some disp32_operand)] st1)))"

text \<open>\<^verbatim>\<open>site_DataPatch\<close> (lines 674 to 734).\<close>

definition site_DataPatch ::
  "build \<Rightarrow> code_view \<Rightarrow> installer \<Rightarrow> jint \<Rightarrow> kind \<Rightarrow> jlong \<Rightarrow> oop \<Rightarrow> int \<Rightarrow> bool \<Rightarrow>
     error + installer" where
  "site_DataPatch B C st pc_offset k prim obj alignment inlined =
     (let instruction = instruction_at st pc_offset;
          c = typeChar k
      in
      if c = CHR ''z'' \<or> c = CHR ''b'' \<or> c = CHR ''s'' \<or> c = CHR ''c'' \<or> c = CHR ''i''
      then Inl (Fatal ''int-sized values not expected in DataPatch'')
      else if c = CHR ''f'' \<or> c = CHR ''j'' \<or> c = CHR ''d'' then
        (case record_metadata_in_constant B k prim obj (metadata st) of
           Inl e \<Rightarrow> Inl e
         | Inr rec \<Rightarrow>
             if inlined
             then Inr (emit [store_jlong (locate_operand C instruction imm_operand) prim]
                         (st\<lparr>metadata := rec\<rparr>))
             else patch_out_of_line B C (st\<lparr>metadata := rec\<rparr>) instruction prim alignment)
      else if c = CHR ''a'' then
        Inr (emit [store_jobject (locate_operand C instruction imm_operand) obj,
                   relocate instruction oop_Relocation_immediate (Some imm_operand)] st)
      else Inl (Fatal ''unexpected Kind (%d) in DataPatch''))"

text \<open>The parts of \<^verbatim>\<open>site_Mark\<close> (lines 736 to 842).\<close>

definition set_next_call_type :: "mark_id \<Rightarrow> address \<Rightarrow> installer \<Rightarrow> installer" where
  "set_next_call_type i instruction st =
     st\<lparr>next_call_type := i, invoke_mark_pc := Some instruction\<rparr>"

definition mark_inline_cache ::
  "build \<Rightarrow> code_view \<Rightarrow> mark_id \<Rightarrow> address \<Rightarrow> installer \<Rightarrow> error + installer" where
  "mark_inline_cache B C i instruction st =
     (case vm_assert B (mov_const_reg_data C instruction = 0)
             ''inline cache Klass* initial value should be 0L'' of
        Inl e \<Rightarrow> Inl e
      | Inr _ \<Rightarrow>
          Inr (set_next_call_type i instruction (emit [set_data instruction non_oop_word] st)))"

definition mark_poll ::
  "code_view \<Rightarrow> bool \<Rightarrow> relocation \<Rightarrow> address \<Rightarrow> installer \<Rightarrow> installer" where
  "mark_poll C near r instruction st =
     emit ((if near
            then [store_jint (locate_operand C instruction disp32_operand)
                    (ucast (poll_address C - instruction))]
            else []) @ [relocate instruction r None]) st"

definition mark_patching ::
  "build \<Rightarrow> code_view \<Rightarrow> bool \<Rightarrow> address \<Rightarrow> jint list \<Rightarrow> installer \<Rightarrow> error + installer" where
  "mark_patching B C access_field instruction references st =
     (let byte_count = instruction - 1;
          byte_skip = instruction - 2;
          being_initialized_entry_offset = instruction - 3
      in
      case vm_assert B (byte_at C byte_skip = 5) ''unexpected byte_skip'' of
        Inl e \<Rightarrow> Inl e
      | Inr _ \<Rightarrow>
     (case vm_assert B (length references = 2)
             ''MARK_KLASS_PATCHING/MARK_ACCESS_FIELD_PATCHING needs 2 references'' of
        Inl e \<Rightarrow> Inl e
      | Inr _ \<Rightarrow>
     (case references of
        ref1 # ref2 # rest \<Rightarrow>
          (let i_byte_count = ref2 - ref1 in
           case vm_assert B (i_byte_count = ucast (ucast i_byte_count :: u_char)) ''invalid offset'' of
             Inl e \<Rightarrow> Inl e
           | Inr _ \<Rightarrow>
               (let st1 = emit [store_byte byte_count (ucast i_byte_count),
                                store_byte being_initialized_entry_offset
                                  (ucast i_byte_count + byte_at C byte_skip)] st
                in if access_field then
                     (case vm_assert B (mov_reg_mem_offset C (instruction_at st ref1) = 0x7FFFFFFF)
                             ''unexpected offset value'' of
                        Inl e \<Rightarrow> Inl e
                      | Inr _ \<Rightarrow> Inr (emit [set_offset (instruction_at st ref1) 0] st1))
                   else Inr st1))
      | _ \<Rightarrow> Inl (Undefined ''references read out of bounds''))))"

definition site_Mark ::
  "build \<Rightarrow> code_view \<Rightarrow> installer \<Rightarrow> jint \<Rightarrow> mark_id option \<Rightarrow> jint list \<Rightarrow> error + installer" where
  "site_Mark B C st pc_offset id_obj references =
     (case id_obj of
        None \<Rightarrow> Inr st
      | Some i \<Rightarrow>
          (let instruction = instruction_at st pc_offset in
           case i of
             MARK_UNVERIFIED_ENTRY \<Rightarrow> Inr (st\<lparr>offsets := offsets st @ [(Entry, pc_offset)]\<rparr>)
           | MARK_VERIFIED_ENTRY \<Rightarrow> Inr (st\<lparr>offsets := offsets st @ [(Verified_Entry, pc_offset)]\<rparr>)
           | MARK_OSR_ENTRY \<Rightarrow> Inr (st\<lparr>offsets := offsets st @ [(OSR_Entry, pc_offset)]\<rparr>)
           | MARK_EXCEPTION_HANDLER_ENTRY \<Rightarrow>
               Inr (st\<lparr>offsets := offsets st @ [(Exceptions, pc_offset)]\<rparr>)
           | MARK_DEOPT_HANDLER_ENTRY \<Rightarrow> Inr (st\<lparr>offsets := offsets st @ [(Deopt, pc_offset)]\<rparr>)
           | MARK_STATIC_CALL_STUB \<Rightarrow>
               (case vm_assert B (length references = 1) ''static call stub needs one reference'' of
                  Inl e \<Rightarrow> Inl e
                | Inr _ \<Rightarrow>
                    (case references of
                       [] \<Rightarrow> Inl (Undefined ''references read out of bounds'')
                     | ref # rest \<Rightarrow>
                         Inr (emit [relocate instruction metadata_Relocation_immediate None,
                                    relocate instruction
                                      (static_stub_Relocation (instruction_at st ref)) None] st)))
           | MARK_INVOKEVIRTUAL \<Rightarrow> mark_inline_cache B C i instruction st
           | MARK_INVOKEINTERFACE \<Rightarrow> mark_inline_cache B C i instruction st
           | MARK_INLINE_INVOKEVIRTUAL \<Rightarrow> Inr (set_next_call_type i instruction st)
           | MARK_INVOKE_INVALID \<Rightarrow> Inr (set_next_call_type i instruction st)
           | MARK_INVOKESPECIAL \<Rightarrow> Inr (set_next_call_type i instruction st)
           | MARK_INVOKESTATIC \<Rightarrow> Inr (set_next_call_type i instruction st)
           | MARK_IMPLICIT_NULL \<Rightarrow>
               Inr (st\<lparr>implicit_exception_table :=
                         implicit_exception_table st @ [(pc_offset, pc_offset)]\<rparr>)
           | MARK_POLL_NEAR \<Rightarrow> Inr (mark_poll C True poll_type instruction st)
           | MARK_POLL_FAR \<Rightarrow> Inr (mark_poll C False poll_type instruction st)
           | MARK_POLL_RETURN_NEAR \<Rightarrow> Inr (mark_poll C True poll_return_type instruction st)
           | MARK_POLL_RETURN_FAR \<Rightarrow> Inr (mark_poll C False poll_return_type instruction st)
           | MARK_KLASS_PATCHING \<Rightarrow> mark_patching B C False instruction references st
           | MARK_ACCESS_FIELD_PATCHING \<Rightarrow> mark_patching B C True instruction references st
           | MARK_DUMMY_OOP_RELOCATION \<Rightarrow>
               Inr (emit [relocate instruction oop_Relocation_immediate (Some imm_operand),
                          change_reloc_info_to_none instruction] st)
           | unrecognized_mark n \<Rightarrow> Inl ShouldNotReachHere))"

subsection \<open>The site dispatcher\<close>

text \<open>The body and the loop of \<^verbatim>\<open>initialize_buffer\<close> (lines 376 to 396).\<close>

definition dispatch_site ::
  "build \<Rightarrow> code_view \<Rightarrow> (nat \<Rightarrow> jint \<Rightarrow> bool) \<Rightarrow> vo_heap \<Rightarrow> installer \<Rightarrow> site \<Rightarrow>
     error + installer" where
  "dispatch_site B C interp H st s =
     (case s of
        Call pc_offset target di \<Rightarrow> site_Call B C interp H st pc_offset target di
      | Safepoint pc_offset di \<Rightarrow> site_Safepoint B interp H st pc_offset di
      | DataPatch pc_offset k prim obj alignment inlined \<Rightarrow>
          site_DataPatch B C st pc_offset k prim obj alignment inlined
      | Mark pc_offset id_obj references \<Rightarrow> site_Mark B C st pc_offset id_obj references
      | Other_site pc_offset \<Rightarrow> Inl (Fatal ''unexpected Site subclass''))"

fun sites_loop ::
  "build \<Rightarrow> code_view \<Rightarrow> (nat \<Rightarrow> jint \<Rightarrow> bool) \<Rightarrow> vo_heap \<Rightarrow> site list \<Rightarrow> installer \<Rightarrow>
     error + installer" where
  "sites_loop B C interp H [] st = Inr st"
| "sites_loop B C interp H (s # ss) st =
     (case dispatch_site B C interp H st s of
        Inl e \<Rightarrow> Inl e
      | Inr st' \<Rightarrow> sites_loop B C interp H ss st')"

text \<open>
  What \<^verbatim>\<open>initialize_fields\<close> (lines 333 to 354) and the start of
  \<^verbatim>\<open>initialize_buffer\<close> set up: the frame size with one word for the return address,
  no pending call type, an empty recorder, and the sections of the code buffer (where
  the instructions and the constants start, and how the constants section is aligned).
\<close>

record compilation_result =
  frameSize :: jint
  size_of_parameters :: jint
  sites :: "site list"

record code_buffer =
  cb_insts_start :: address
  cb_consts_start :: address
  cb_consts_alignment :: int

definition initialize_fields :: "build \<Rightarrow> compilation_result \<Rightarrow> code_buffer \<Rightarrow> installer" where
  "initialize_fields B comp_result buffer =
     \<lparr>total_frame_size = frameSize comp_result + HeapWordSize B,
      parameter_count = size_of_parameters comp_result,
      next_call_type = MARK_INVOKE_INVALID,
      invoke_mark_pc = None,
      debug_recorder = [],
      heap_top = 0,
      metadata = [],
      insts_start = cb_insts_start buffer,
      consts_start = cb_consts_start buffer,
      consts_size = 0,
      consts_alignment = cb_consts_alignment buffer,
      buffer_ops = [],
      offsets = [],
      implicit_exception_table = []\<rparr>"

definition initialize_buffer ::
  "build \<Rightarrow> code_view \<Rightarrow> (nat \<Rightarrow> jint \<Rightarrow> bool) \<Rightarrow> vo_heap \<Rightarrow> compilation_result \<Rightarrow> code_buffer \<Rightarrow>
     error + installer" where
  "initialize_buffer B C interp H comp_result buffer =
     sites_loop B C interp H (sites comp_result) (initialize_fields B comp_result buffer)"


section \<open>Notions the properties are stated with\<close>

subsection \<open>Builds and kinds\<close>

text \<open>
  A product build and a debug build of a 64-bit little-endian platform, as the register
  tables of the installer have it, and three kinds with their type characters.
\<close>

definition product_build :: build where
  "product_build = \<lparr>ASSERT = False, VM_LITTLE_ENDIAN = True, HeapWordSize = 8,
     NativeCall_instruction_size = 5, NativeMovConstReg_instruction_size = 10\<rparr>"

definition debug_build :: build where
  "debug_build = product_build\<lparr>ASSERT := True\<rparr>"

definition Kind_Int :: kind where
  "Kind_Int = \<lparr>typeChar = CHR ''i'', kindToBasicType = T_INT\<rparr>"

definition Kind_Long :: kind where
  "Kind_Long = \<lparr>typeChar = CHR ''j'', kindToBasicType = T_LONG\<rparr>"

definition Kind_Object :: kind where
  "Kind_Object = \<lparr>typeChar = CHR ''a'', kindToBasicType = T_OBJECT\<rparr>"

subsection \<open>Reference maps\<close>

text \<open>Bit \<open>i\<close> of a bit map is set; and the message of the assertion on a register.\<close>

definition bit_set :: "bit_map \<Rightarrow> nat \<Rightarrow> bool" where
  "bit_set bm i = (i div MapWordBits < length (words bm) \<and>
      (words bm ! (i div MapWordBits)) AND (push_bit (i mod MapWordBits) 1) \<noteq> 0)"

definition oop_msg :: string where
  "oop_msg = ''this register may never be an oop, register map misaligned?''"

subsection \<open>Frames and scopes\<close>

text \<open>The chain of a frame: the frame itself, then its callers, innermost first.\<close>

fun chain :: "frame \<Rightarrow> frame list" where
  "chain (BytecodePosition caller_frame method bci vals lc ec mc rethrow during_call leaf is_frame) =
     BytecodePosition caller_frame method bci vals lc ec mc rethrow during_call leaf is_frame #
     (case caller_frame of None \<Rightarrow> [] | Some c \<Rightarrow> chain c)"

text \<open>The scopes described to the recorder, in the order of the calls.\<close>

fun described :: "recorder_call list \<Rightarrow> scope_desc list" where
  "described [] = []"
| "described (describe_scope d # cs) = d # described cs"
| "described (c # cs) = described cs"


text \<open>
  A described scope is that of a frame, at a pc offset; the re-execute flag a frame
  should get; and the scope a frame is described with, given the lists of its values.
\<close>

definition scope_of_frame :: "scope_desc \<Rightarrow> jint \<Rightarrow> frame \<Rightarrow> bool" where
  "scope_of_frame d pc f =
     (sd_pc_offset d = pc \<and> sd_method d = f_method f \<and> sd_bci d = f_bci f \<and>
      sd_throw_exception d = rethrowException f)"

definition frame_reexecute :: "frame \<Rightarrow> bool" where
  "frame_reexecute f = (f_bci f \<noteq> - 1 \<and> f_bci f \<noteq> - 2 \<and> \<not> duringCall f)"

definition scope_desc_of :: "jint \<Rightarrow> frame \<Rightarrow> scope_lists \<Rightarrow> scope_desc" where
  "scope_desc_of pc f L =
     \<lparr>sd_pc_offset = pc, sd_method = f_method f, sd_bci = f_bci f,
      sd_reexecute = frame_reexecute f, sd_throw_exception = rethrowException f,
      sd_locals = locals L, sd_expressions = expressions L, sd_monitors = monitors L\<rparr>"

text \<open>What \<^verbatim>\<open>record_scope\<close> does for the caller of a frame (lines 453 to 456).\<close>

definition caller_result ::
  "build \<Rightarrow> (nat \<Rightarrow> jint \<Rightarrow> bool) \<Rightarrow> vo_heap \<Rightarrow> jint \<Rightarrow> jint \<Rightarrow> frame option \<Rightarrow>
     translation \<times> recorder_call list \<Rightarrow> error + (translation \<times> recorder_call list)" where
  "caller_result B interp H tfs pc caller_frame S =
     (case caller_frame of None \<Rightarrow> Inr S
      | Some c \<Rightarrow> record_scope B interp H tfs pc c S)"

text \<open>
  Frames without values, and a chain of three of them: A calls B calls C. A has no bci,
  B is in the middle of a call, C is not.
\<close>

definition empty_translation :: translation where
  "empty_translation = \<lparr>objects = [], next_ObjectValue = 0, oop_recorder = []\<rparr>"

definition no_scope_values :: scope_lists where
  "no_scope_values = \<lparr>locals = [], expressions = [], monitors = []\<rparr>"

definition plain_frame :: "frame option \<Rightarrow> nat \<Rightarrow> jint \<Rightarrow> bool \<Rightarrow> frame" where
  "plain_frame c m b during = BytecodePosition c m b [] 0 0 0 False during (- 1) True"

definition frame_A :: frame where
  "frame_A = plain_frame None 1 (- 1) False"

definition frame_B :: frame where
  "frame_B = plain_frame (Some frame_A) 2 7 True"

definition frame_C :: frame where
  "frame_C = plain_frame (Some frame_B) 3 4 False"

subsection \<open>Wide values\<close>

text \<open>
  The values for which the translator sets \<^verbatim>\<open>second\<close> (lines 148, 161, 177 and
  186): a long in a general register, a double in an xmm register, and a long or a double
  on the stack or as a constant. And the lists in which each of them is followed by
  \<^verbatim>\<open>Value.ILLEGAL\<close>, as the producer builds them.
\<close>

fun two_slots :: "graal_value \<Rightarrow> bool" where
  "two_slots (RegisterValue k number) =
     (if sint number < 16 then kindToBasicType k = T_LONG else kindToBasicType k = T_DOUBLE)"
| "two_slots (StackSlot k slot_offset addFrameSize) =
     (kindToBasicType k = T_DOUBLE \<or> kindToBasicType k = T_LONG)"
| "two_slots (Constant k prim obj) = (kindToBasicType k = T_LONG \<or> kindToBasicType k = T_DOUBLE)"
| "two_slots v = False"

fun placeholders_ok :: "graal_value list \<Rightarrow> bool" where
  "placeholders_ok [] = True"
| "placeholders_ok (v # vs) =
     ((two_slots v \<longrightarrow> (case vs of [] \<Rightarrow> False | w # ws \<Rightarrow> w = ILLEGAL)) \<and> placeholders_ok vs)"





subsection \<open>Sites\<close>

text \<open>
  A code buffer with a jump at offset 0 and a call at offset 16, the installer state at
  the start of its installation, and a debug info without reference maps at frame A.
\<close>

definition example_view :: code_view where
  "example_view =
     \<lparr>nativeInstruction_at = (\<lambda>a. if a = 0x1000 then is_jump
                                    else if a = 0x1010 then is_call else other_instruction),
      byte_at = (\<lambda>a. 0),
      mov_const_reg_data = (\<lambda>a. 0),
      mov_reg_mem_offset = (\<lambda>a. 0),
      locate_operand = (\<lambda>a f. a + 3),
      locate_next_instruction = (\<lambda>a. a + 7),
      poll_address = 0\<rparr>"

definition example_buffer :: code_buffer where
  "example_buffer =
     \<lparr>cb_insts_start = 0x1000, cb_consts_start = 0x2000, cb_consts_alignment = 16\<rparr>"

definition example_result :: "site list \<Rightarrow> compilation_result" where
  "example_result ss = \<lparr>frameSize = 16, size_of_parameters = 0, sites = ss\<rparr>"

definition example_state :: installer where
  "example_state = initialize_fields debug_build (example_result []) example_buffer"

definition example_debug_info :: debug_info where
  "example_debug_info =
     \<lparr>registerRefMap = None, frameRefMap = \<lparr>words = []\<rparr>, bytecodePosition = Some frame_A\<rparr>"

text \<open>
  The ids of the marks that set the pending call type (lines 770 to 784), and the two
  operations on the code buffer at a call of an installed code unit (lines 590 and 591).
\<close>

definition invoke_marks :: "mark_id set" where
  "invoke_marks = {MARK_INVOKEVIRTUAL, MARK_INVOKEINTERFACE, MARK_INLINE_INVOKEVIRTUAL,
                   MARK_INVOKE_INVALID, MARK_INVOKESPECIAL, MARK_INVOKESTATIC}"

definition installed_code_patch :: "address \<Rightarrow> address \<Rightarrow> buffer_op list" where
  "installed_code_patch inst entry =
     [set_jump_destination inst (verified_entry_point entry),
      relocate inst runtime_call_Relocation (Some call32_operand)]"

text \<open>
  The oop maps of the safepoints added to the recorder, and the installer states in which
  all of them have the frame size of the installer.
\<close>

fun safepoint_maps :: "recorder_call list \<Rightarrow> oop_map list" where
  "safepoint_maps [] = []"
| "safepoint_maps (add_safepoint pc leaf m # cs) = m # safepoint_maps cs"
| "safepoint_maps (c # cs) = safepoint_maps cs"

definition frame_size_ok :: "installer \<Rightarrow> bool" where
  "frame_size_ok st =
     list_all (\<lambda>m. om_frame_size m = total_frame_size st) (safepoint_maps (debug_recorder st))"

text \<open>
  For the out-of-line constants: the kinds whose constants go to the constants section,
  the three writes of such a patch, and two addresses less than \<open>2 ^ 31\<close> bytes apart in
  either direction, as the addresses inside one code buffer are (its size is an
  \<^verbatim>\<open>int\<close>). Then the installer after a first constant has been written at offset 0
  of the constants section.
\<close>

definition primitive_patch :: "kind \<Rightarrow> bool" where
  "primitive_patch k = (typeChar k = CHR ''f'' \<or> typeChar k = CHR ''j'' \<or> typeChar k = CHR ''d'')"

definition out_of_line_ops :: "code_view \<Rightarrow> address \<Rightarrow> address \<Rightarrow> jlong \<Rightarrow> buffer_op list" where
  "out_of_line_ops C instruction dest prim =
     [store_jlong dest prim,
      store_jint (locate_operand C instruction disp32_operand)
        (ucast (dest - locate_next_instruction C instruction)),
      relocate instruction (section_word_Relocation dest) (Some disp32_operand)]"

definition within_jint :: "address \<Rightarrow> address \<Rightarrow> bool" where
  "within_jint a b = (- (2 ^ 31) \<le> uint a - uint b \<and> uint a - uint b < 2 ^ 31)"

definition one_constant :: installer where
  "one_constant =
     example_state\<lparr>consts_size := 8,
       buffer_ops := [store_jlong 0x2000 1, store_jint 0x1003 0xFF9,
                      relocate 0x1000 (section_word_Relocation 0x2000) (Some disp32_operand)]\<rparr>"

subsection \<open>Virtual objects\<close>

text \<open>
  The pointers and ids that \<^verbatim>\<open>objects\<close> holds, in order; a later state of the list,
  which has the same entries and then more; a list with at most one object value for an
  id; and the pointer found for an id.
\<close>

definition skeleton :: "translation \<Rightarrow> (nat \<times> jint) list" where
  "skeleton T = map (\<lambda>(a, obj). (a, ov_id obj)) (objects T)"

definition grows :: "translation \<Rightarrow> translation \<Rightarrow> bool" where
  "grows T T' = (\<exists>ext. skeleton T' = skeleton T @ ext)"

definition unique_ids :: "translation \<Rightarrow> bool" where
  "unique_ids T = distinct (map snd (skeleton T))"

definition lookup_id :: "jint \<Rightarrow> translation \<Rightarrow> nat option" where
  "lookup_id i T = map_option fst (find_object i T)"

text \<open>A property of the translation state that every step of the translator keeps.\<close>

definition stable :: "(translation \<Rightarrow> bool) \<Rightarrow> bool" where
  "stable P =
     ((\<forall>T r. P T \<longrightarrow> P (T\<lparr>oop_recorder := r\<rparr>)) \<and>
      (\<forall>T a v s. P T \<longrightarrow> P (append_field_values a v s T)) \<and>
      (\<forall>T vo. P T \<longrightarrow> find_object (vo_id vo) T = None \<longrightarrow> P (snd (new_ObjectValue vo T))))"

text \<open>
  A virtual object with id 7 that is its own field value, a frame whose only local is
  that object, and what a pass over that frame produces when the next object value gets
  the pointer \<open>n\<close>: the object value, the list \<^verbatim>\<open>objects\<close> and the described scope.
  Last, the calls on the recorder of two safepoints at that frame.
\<close>

definition self_heap :: vo_heap where
  "self_heap = [\<lparr>vo_id = 7, vo_javaMirror = Other_oop 1, vo_klass = Other_klass 0,
                 vo_values = [VirtualObject Kind_Object 0]\<rparr>]"

definition frame_V :: frame where
  "frame_V = BytecodePosition None 1 0 [VirtualObject Kind_Object 0] 1 0 0 False False (- 1) True"

definition debug_info_V :: debug_info where
  "debug_info_V =
     \<lparr>registerRefMap = None, frameRefMap = \<lparr>words = []\<rparr>, bytecodePosition = Some frame_V\<rparr>"

definition self_object_at :: "nat \<Rightarrow> object_value" where
  "self_object_at n = \<lparr>ov_id = 7, ov_klass = ConstantOopWriteValue (Other_oop 1),
                        ov_field_values = [ObjectValue_at n]\<rparr>"

definition fresh_translation :: "nat \<Rightarrow> translation" where
  "fresh_translation n = \<lparr>objects = [], next_ObjectValue = n, oop_recorder = []\<rparr>"

definition self_translation :: "nat \<Rightarrow> translation" where
  "self_translation n =
     \<lparr>objects = [(n, self_object_at n)], next_ObjectValue = n + 1, oop_recorder = []\<rparr>"

definition scope_V :: "jint \<Rightarrow> nat \<Rightarrow> scope_desc" where
  "scope_V pc n =
     scope_desc_of pc frame_V \<lparr>locals = [ObjectValue_at n], expressions = [], monitors = []\<rparr>"

definition two_safepoints :: "recorder_call list" where
  "two_safepoints =
     [add_safepoint 0 (- 1) (new_OopMap 24 0), dump_object_pool [(0, self_object_at 0)],
      describe_scope (scope_V 0 0), end_safepoint 0,
      add_safepoint 8 (- 1) (new_OopMap 24 0), dump_object_pool [(1, self_object_at 1)],
      describe_scope (scope_V 8 1), end_safepoint 8]"


subsection \<open>Recorded stack slots\<close>

text \<open>
  The debug info whose scopes a site handler records: that of a safepoint, and that of a
  call unless the target is installed code, for which the handler returns before it looks
  at the debug info (line 593).
\<close>

fun site_debug_info :: "site \<Rightarrow> debug_info option" where
  "site_debug_info (Safepoint pc_offset di) = di"
| "site_debug_info (Call pc_offset (HotSpotInstalledCode_target entry) di) = None"
| "site_debug_info (Call pc_offset target di) = di"
| "site_debug_info s = None"

text \<open>
  The lists of a frame after more values have been recorded. And a described scope in which
  the stack slots of a frame that carry \<^verbatim>\<open>addFrameSize\<close> stand at their offset plus
  \<open>tfs\<close>: those among the locals and the expressions in the list of the locals or of the
  expressions, those that are the lock or the owner of a monitor in the list of the
  monitors.
\<close>

definition lists_grow :: "scope_lists \<Rightarrow> scope_lists \<Rightarrow> bool" where
  "lists_grow L L' =
     (set (locals L) \<subseteq> set (locals L') \<and> set (expressions L) \<subseteq> set (expressions L') \<and>
      set (monitors L) \<subseteq> set (monitors L'))"

definition slots_recorded :: "jint \<Rightarrow> frame \<Rightarrow> scope_desc \<Rightarrow> bool" where
  "slots_recorded tfs g d =
     (\<forall>j k off. j < length (f_values g) \<longrightarrow>
        (f_values g ! j = StackSlot k off True \<longrightarrow>
           (\<exists>t. LocationValue (new_stk_loc t (off + tfs)) \<in>
                  set (if int j < sint (numLocals g) then sd_locals d else sd_expressions d))) \<and>
        (\<forall>km owner e. f_values g ! j = code_MonitorValue km owner (StackSlot k off True) e \<longrightarrow>
           (\<exists>ov t el. MonitorValue ov (new_stk_loc t (off + tfs)) el \<in> set (sd_monitors d))) \<and>
        (\<forall>km lockData e. f_values g ! j = code_MonitorValue km (StackSlot k off True) lockData e \<longrightarrow>
           (\<exists>t l el. MonitorValue (LocationValue (new_stk_loc t (off + tfs))) l el \<in>
                  set (sd_monitors d))))"

text \<open>
  The recorder holds such a scope for every frame of a debug info, and for the debug info
  of a site.
\<close>

definition scopes_recorded :: "jint \<Rightarrow> debug_info \<Rightarrow> installer \<Rightarrow> bool" where
  "scopes_recorded tfs di st =
     (\<forall>f g. bytecodePosition di = Some f \<longrightarrow> g \<in> set (chain f) \<longrightarrow>
        (\<exists>d \<in> set (described (debug_recorder st)).
           (\<exists>pc. scope_of_frame d pc g) \<and>
           (placeholders_ok (f_values g) \<longrightarrow> slots_recorded tfs g d)))"

definition site_recorded :: "jint \<Rightarrow> site \<Rightarrow> installer \<Rightarrow> bool" where
  "site_recorded tfs s st = (\<forall>di. site_debug_info s = Some di \<longrightarrow> scopes_recorded tfs di st)"

text \<open>
  \<^verbatim>\<open>objects\<close> holds an object value with pointer \<open>a\<close>, and one with the scope value
  \<open>x\<close> among its field values.
\<close>

definition has_object :: "nat \<Rightarrow> translation \<Rightarrow> bool" where
  "has_object a T = (a \<in> fst ` set (objects T))"

definition field_recorded :: "nat \<Rightarrow> scope_value \<Rightarrow> translation \<Rightarrow> bool" where
  "field_recorded a x T = (\<exists>obj. (a, obj) \<in> set (objects T) \<and> x \<in> set (ov_field_values obj))"

text \<open>
  A frame with a stack slot as its first local, a virtual object with a stack slot as its
  field as the second, and a monitor whose owner and lock are stack slots, all four slots
  with \<^verbatim>\<open>addFrameSize\<close>; and what a safepoint at that frame leaves behind when the frame
  size is 24: the object value, the translation state, the lists of the frame and the
  installer.
\<close>

definition slot_heap :: vo_heap where
  "slot_heap = [\<lparr>vo_id = 7, vo_javaMirror = Other_oop 1, vo_klass = Other_klass 0,
                 vo_values = [StackSlot Kind_Int 12 True]\<rparr>]"

definition frame_S :: frame where
  "frame_S = BytecodePosition None 1 0
     [StackSlot Kind_Int 4 True, VirtualObject Kind_Object 0,
      code_MonitorValue Kind_Object (StackSlot Kind_Object 16 True) (StackSlot Kind_Long 8 True) False]
     2 0 1 False False (- 1) True"

definition debug_info_S :: debug_info where
  "debug_info_S =
     \<lparr>registerRefMap = None, frameRefMap = \<lparr>words = []\<rparr>, bytecodePosition = Some frame_S\<rparr>"

definition slot_object :: object_value where
  "slot_object = \<lparr>ov_id = 7, ov_klass = ConstantOopWriteValue (Other_oop 1),
                  ov_field_values = [LocationValue (new_stk_loc Location_normal 36)]\<rparr>"

definition slot_translation :: translation where
  "slot_translation = \<lparr>objects = [(0, slot_object)], next_ObjectValue = 1, oop_recorder = []\<rparr>"

definition slot_lists :: scope_lists where
  "slot_lists =
     \<lparr>locals = [LocationValue (new_stk_loc Location_normal 28), ObjectValue_at 0],
      expressions = [],
      monitors = [MonitorValue (LocationValue (new_stk_loc Location_oop 40))
                    (new_stk_loc Location_lng 32) False]\<rparr>"

definition slot_state :: installer where
  "slot_state =
     example_state\<lparr>debug_recorder :=
         [add_safepoint 0 (- 1) (new_OopMap 24 0), dump_object_pool [(0, slot_object)],
          describe_scope (scope_desc_of 0 frame_S slot_lists), end_safepoint 0],
       heap_top := 1\<rparr>"

section \<open>Properties\<close>

subsection \<open>The reference-map decoder\<close>

declare register_loop.simps [simp del] frame_loop.simps [simp del]

lemma is_bit_set_reg:
  "0 < length (words bm) \<Longrightarrow> i < 16 \<Longrightarrow> is_bit_set B bm i = Inr (bit_set bm i)"
  by (simp add: is_bit_set_def bit_set_def vm_assert_def MapWordBits_def)

lemma get_hotspot_reg_cpu:
  "i < 16 \<Longrightarrow> get_hotspot_reg B i = Inr (Register_VMReg (CPU_REGS ! i))"
  by (simp add: get_hotspot_reg_def vm_assert_def NUM_REGS_def NUM_CPU_REGS_def NUM_XMM_REGS_def CPU_REGS_def XMM_REGS_def)

lemma register_loop_step:
  assumes "0 < length (words bm)" "i < 16"
  shows "register_loop B bm i m =
     (if bit_set bm i then
        (if ASSERT B \<and> \<not> OOP_ALLOWED ! i then Inl (AssertFailed oop_msg)
         else register_loop B bm (i + 1) (om_add (set_oop (Register_VMReg (CPU_REGS ! i))) m))
      else register_loop B bm (i + 1) (om_add (set_value (Register_VMReg (CPU_REGS ! i))) m))"
  using assms
  by (subst register_loop.simps)
     (simp add: is_bit_set_reg get_hotspot_reg_cpu vm_assert_def NUM_CPU_REGS_def CPU_REGS_def oop_msg_def)

lemma register_loop_done: "16 \<le> i \<Longrightarrow> register_loop B bm i m = Inr m"
  by (subst register_loop.simps) (simp add: NUM_CPU_REGS_def CPU_REGS_def)

lemma register_loop_empty:
  "words bm = [] \<Longrightarrow> i < 16 \<Longrightarrow> register_loop B bm i m =
     Inl (if ASSERT B then AssertFailed ''unexpected index''
          else Undefined ''bit map words read out of bounds'')"
  by (subst register_loop.simps)
     (simp add: is_bit_set_def vm_assert_def NUM_CPU_REGS_def CPU_REGS_def MapWordBits_def)

lemma register_loop_bad:
  "ASSERT B \<Longrightarrow> bit_set bm j \<Longrightarrow> j < 16 \<Longrightarrow> \<not> OOP_ALLOWED ! j \<Longrightarrow> i \<le> j \<Longrightarrow>
   register_loop B bm i m = Inl (AssertFailed oop_msg)"
proof (induction "j - i" arbitrary: i m)
  case 0
  then have "i = j" by simp
  moreover have "0 < length (words bm)"
    using "0.prems" by (auto simp: bit_set_def MapWordBits_def)
  ultimately show ?case using "0.prems" by (simp add: register_loop_step)
next
  case (Suc n)
  have len: "0 < length (words bm)"
    using Suc.prems by (auto simp: bit_set_def MapWordBits_def)
  have "register_loop B bm (i + 1) m' = Inl (AssertFailed oop_msg)" for m'
    using Suc.hyps(1)[of "i + 1" m'] Suc.hyps(2) Suc.prems by simp
  then show ?case
    using Suc.prems Suc.hyps(2) len by (simp add: register_loop_step)
qed

lemma NUM_CPU_REGS_16: "NUM_CPU_REGS = 16"
  by (simp add: NUM_CPU_REGS_def CPU_REGS_def)

lemma register_loop_good:
  assumes "\<And>j. i \<le> j \<Longrightarrow> j < 16 \<Longrightarrow> bit_set bm j \<Longrightarrow> ASSERT B \<Longrightarrow> OOP_ALLOWED ! j"
  shows "register_loop B bm i m \<noteq> Inl (AssertFailed oop_msg)"
  using assms
proof (induction "16 - i" arbitrary: i m)
  case 0
  then show ?case by (simp add: register_loop_done)
next
  case (Suc n)
  have i16: "i < 16" using Suc.hyps(2) by simp
  show ?case
  proof (cases "words bm = []")
    case True
    then show ?thesis using i16 by (simp add: register_loop_empty oop_msg_def)
  next
    case False
    have next_ok: "register_loop B bm (i + 1) m' \<noteq> Inl (AssertFailed oop_msg)" for m'
    proof (rule Suc.hyps(1))
      show "n = 16 - (i + 1)" using Suc.hyps(2) by simp
      show "OOP_ALLOWED ! j" if "i + 1 \<le> j" "j < 16" "bit_set bm j" "ASSERT B" for j
        using that Suc.prems[of j] by simp
    qed
    have here: "bit_set bm i \<Longrightarrow> ASSERT B \<Longrightarrow> OOP_ALLOWED ! i"
      using Suc.prems[of i] i16 by simp
    show ?thesis
      using False i16 next_ok here by (auto simp: register_loop_step)
  qed
qed

lemma frame_loop_ok: "\<exists>m'. frame_loop B bm i m = Inr m'"
proof (induction "bitmap_size bm - i" arbitrary: i m)
  case 0
  then show ?case by (subst frame_loop.simps) simp
next
  case (Suc n)
  then have lt: "i < bitmap_size bm" by simp
  then have idx: "i div MapWordBits < length (words bm)"
    by (simp add: bitmap_size_def MapWordBits_def less_mult_imp_div_less)
  have "\<exists>m'. frame_loop B bm (i + 1) m'' = Inr m'" for m''
    using Suc.hyps(1)[of "i + 1" m''] Suc.hyps(2) by simp
  then show ?case
    using lt idx
    by (subst frame_loop.simps) (simp add: is_bit_set_def vm_assert_def Let_def)
qed

text \<open>
  The decoder ends with the violation ``this register may never be an oop'' exactly when
  assertions are compiled in and the register map has a set bit on a register index whose
  \<open>OOP_ALLOWED\<close> entry is false. The check is the \<^verbatim>\<open>assert\<close> of line 83 and nothing
  else: a build without \<^verbatim>\<open>ASSERT\<close> never ends with it.
\<close>

lemma create_oop_map_assert:
  "create_oop_map B tfs pcount di = Inl (AssertFailed oop_msg) \<longleftrightarrow>
     ASSERT B \<and> (\<exists>register_map i. registerRefMap di = Some register_map \<and>
        i < NUM_CPU_REGS \<and> bit_set register_map i \<and> \<not> OOP_ALLOWED ! i)"
proof (cases "registerRefMap di")
  case None
  obtain m' where "frame_loop B (frameRefMap di) 0 (new_OopMap tfs pcount) = Inr m'"
    using frame_loop_ok by blast
  then show ?thesis using None by (simp add: create_oop_map_def)
next
  case (Some bm)
  let ?m = "new_OopMap tfs pcount"
  show ?thesis
  proof (cases "ASSERT B \<and> (\<exists>j. j < 16 \<and> bit_set bm j \<and> \<not> OOP_ALLOWED ! j)")
    case True
    then obtain j where "j < 16" "bit_set bm j" "\<not> OOP_ALLOWED ! j" by blast
    then have "register_loop B bm 0 ?m = Inl (AssertFailed oop_msg)"
      using True register_loop_bad[of B bm j 0 ?m] by simp
    then show ?thesis
      using Some True by (auto simp: create_oop_map_def NUM_CPU_REGS_16)
  next
    case False
    then have ne: "register_loop B bm 0 ?m \<noteq> Inl (AssertFailed oop_msg)"
      using register_loop_good[of 0 bm B ?m] by blast
    have "create_oop_map B tfs pcount di \<noteq> Inl (AssertFailed oop_msg)"
    proof (cases "register_loop B bm 0 ?m")
      case (Inl e)
      then show ?thesis using Some ne by (simp add: create_oop_map_def)
    next
      case (Inr m1)
      obtain m' where "frame_loop B (frameRefMap di) 0 m1 = Inr m'"
        using frame_loop_ok by blast
      then show ?thesis using Some Inr by (simp add: create_oop_map_def)
    qed
    then show ?thesis
      using Some False by (auto simp: NUM_CPU_REGS_16)
  qed
qed

text \<open>
  Claim C6 has the decoder fail with a fatal contract violation when a set bit of the
  register map falls on a register that may not hold a reference, and so has the
  assertion of line 83, ``this register may never be an oop, register map misaligned?''.
  The code at a failing input: in a build without \<^verbatim>\<open>ASSERT\<close>, where the
  \<^verbatim>\<open>assert\<close> macro is empty, a register map with bit 4 set (\<open>rsp\<close>, whose
  \<open>OOP_ALLOWED\<close> entry is false) is decoded, the decoder returns normally, and the oop map
  it returns marks \<open>rsp\<close> as an oop.
\<close>

theorem create_oop_map_rsp_marked_oop:
  "bit_set \<lparr>words = [16]\<rparr> 4 \<and> \<not> OOP_ALLOWED ! 4 \<and>
   create_oop_map product_build 24 0 \<lparr>registerRefMap = Some \<lparr>words = [16]\<rparr>, frameRefMap = \<lparr>words = []\<rparr>\<rparr>
   = Inr \<lparr>om_frame_size = 24, om_arg_count = 0, om_entries =
       [set_value (Register_VMReg rax), set_value (Register_VMReg rcx), set_value (Register_VMReg rdx),
        set_value (Register_VMReg rbx), set_oop (Register_VMReg rsp), set_value (Register_VMReg rbp),
        set_value (Register_VMReg rsi), set_value (Register_VMReg rdi), set_value (Register_VMReg r8),
        set_value (Register_VMReg r9), set_value (Register_VMReg r10), set_value (Register_VMReg r11),
        set_value (Register_VMReg r12), set_value (Register_VMReg r13), set_value (Register_VMReg r14),
        set_value (Register_VMReg r15)]\<rparr>"
  by (simp add: create_oop_map_def register_loop_step register_loop_done frame_loop.simps
        bit_set_def MapWordBits_def OOP_ALLOWED_def product_build_def new_OopMap_def om_add_def
        CPU_REGS_def bitmap_size_def)


subsection \<open>The scope recorder\<close>

lemma described_append [simp]: "described (xs @ ys) = described xs @ described ys"
  by (induction xs rule: described.induct) auto

lemma reexecute_flag_Some:
  "reexecute_flag interp (Some f) m b d = (b \<noteq> - 1 \<and> b \<noteq> - 2 \<and> \<not> d)"
  by (auto simp: reexecute_flag_def)

declare record_scope.simps [simp del] values_loop.simps [simp del]

lemma record_scope_Inr:
  assumes "record_scope B interp H tfs pc f (T, rec) = Inr (T', rec')"
  shows "\<exists>T1 rec1 L.
           caller_result B interp H tfs pc (f_caller f) (T, rec) = Inr (T1, rec1) \<and>
           is_BytecodeFrame f \<and>
           (ASSERT B \<longrightarrow> sint (numLocals f + numStack f + numLocks f) = int (length (f_values f))) \<and>
           values_loop B H tfs (numLocals f) (numStack f) (f_values f) 0
             \<lparr>locals = [], expressions = [], monitors = []\<rparr> T1 = Inr (L, T') \<and>
           rec' = rec1 @ [dump_object_pool (objects T'), describe_scope (scope_desc_of pc f L)]"
  using assms
  by (cases f)
     (auto simp: record_scope.simps Let_def reexecute_flag_Some vm_assert_def caller_result_def
                 scope_desc_of_def frame_reexecute_def
           split: sum.splits if_splits prod.splits)

lemma scope_desc_of_frame [simp]:
  "scope_of_frame (scope_desc_of pc f L) pc f" "sd_reexecute (scope_desc_of pc f L) = frame_reexecute f"
  by (simp_all add: scope_desc_of_def scope_of_frame_def)

lemma chain_unfold: "chain f = f # (case f_caller f of None \<Rightarrow> [] | Some c \<Rightarrow> chain c)"
  by (cases f) simp

lemma record_scope_described:
  "record_scope B interp H tfs pc f (T, rec) = Inr (T', rec') \<Longrightarrow>
   \<exists>ds. described rec' = described rec @ ds \<and>
        list_all2 (\<lambda>d g. scope_of_frame d pc g \<and> sd_reexecute d = frame_reexecute g) ds (rev (chain f))"
proof (induction B interp H tfs pc f "(T, rec)" arbitrary: T rec T' rec' rule: record_scope.induct)
  case (1 B interp H tfs pc caller_frame meth bci vals lc ec mc rethrow during_call leaf is_frame T rec)
  let ?f = "BytecodePosition caller_frame meth bci vals lc ec mc rethrow during_call leaf is_frame"
  from record_scope_Inr[OF "1.prems"] obtain T1 rec1 L where
    c: "caller_result B interp H tfs pc caller_frame (T, rec) = Inr (T1, rec1)"
    and isf: is_frame
    and r: "rec' = rec1 @ [dump_object_pool (objects T'), describe_scope (scope_desc_of pc ?f L)]"
    by auto
  have va: "vm_assert B is_frame ''BytecodeFrame expected'' = Inr ()"
    using isf by (simp add: vm_assert_def)
  have "\<exists>ds. described rec1 = described rec @ ds \<and>
        list_all2 (\<lambda>d g. scope_of_frame d pc g \<and> sd_reexecute d = frame_reexecute g) ds
          (rev (case caller_frame of None \<Rightarrow> [] | Some c \<Rightarrow> chain c))"
  proof (cases caller_frame)
    case None
    with c show ?thesis by (simp add: caller_result_def)
  next
    case (Some cf)
    with c have "record_scope B interp H tfs pc cf (T, rec) = Inr (T1, rec1)"
      by (simp add: caller_result_def)
    from "1.hyps"[OF va Some this] Some show ?thesis by simp
  qed
  then obtain ds where ds: "described rec1 = described rec @ ds"
    "list_all2 (\<lambda>d g. scope_of_frame d pc g \<and> sd_reexecute d = frame_reexecute g) ds
          (rev (case caller_frame of None \<Rightarrow> [] | Some c \<Rightarrow> chain c))" by blast
  have "list_all2 (\<lambda>d g. scope_of_frame d pc g \<and> sd_reexecute d = frame_reexecute g)
          (ds @ [scope_desc_of pc ?f L]) (rev (chain ?f))"
    using ds(2) by (auto intro!: list_all2_appendI)
  then show ?case
    using ds(1) r by simp
qed

lemma record_scope_interp:
  "record_scope B interp H tfs pc f S = record_scope B interp' H tfs pc f S"
proof (induction B interp H tfs pc f S rule: record_scope.induct)
  case (1 B interp H tfs pc caller_frame meth bci vals lc ec mc rethrow during_call leaf is_frame T rec)
  show ?case
  proof (cases "vm_assert B is_frame ''BytecodeFrame expected''")
    case (Inl e)
    then show ?thesis by (simp add: record_scope.simps)
  next
    case (Inr u)
    then have va: "vm_assert B is_frame ''BytecodeFrame expected'' = Inr ()" by simp
    have ceq: "(case caller_frame of None \<Rightarrow> Inr (T, rec)
            | Some c \<Rightarrow> record_scope B interp H tfs pc c (T, rec)) =
          (case caller_frame of None \<Rightarrow> Inr (T, rec)
            | Some c \<Rightarrow> record_scope B interp' H tfs pc c (T, rec))"
      using "1.IH"[OF va] by (cases caller_frame) auto
    show ?thesis
      unfolding record_scope.simps reexecute_flag_Some ceq ..
  qed
qed

lemma values_loop_Nil: "values_loop B H tfs lc ec [] i L T = Inr (L, T)"
  by (subst values_loop.simps) simp

lemma record_scope_plain:
  "record_scope B interp H tfs pc (plain_frame c m b during) (T, rec) =
     (case caller_result B interp H tfs pc c (T, rec) of
        Inl e \<Rightarrow> Inl e
      | Inr (T1, rec1) \<Rightarrow>
          Inr (T1, rec1 @ [dump_object_pool (objects T1),
                 describe_scope (scope_desc_of pc (plain_frame c m b during)
                    \<lparr>locals = [], expressions = [], monitors = []\<rparr>)]))"
  unfolding plain_frame_def record_scope.simps
  by (simp add: vm_assert_def values_loop_Nil reexecute_flag_Some caller_result_def
        scope_desc_of_def frame_reexecute_def split: sum.splits option.splits)





text \<open>
  Claim C10. For every frame that \<^verbatim>\<open>record_scope\<close> describes, the re-execute flag
  passed to \<^verbatim>\<open>describe_scope\<close> is true exactly when the bci is neither \<open>-1\<close> nor
  \<open>-2\<close> and \<^verbatim>\<open>duringCall\<close> is false. What the interpreter says of the bytecode at
  the bci does not matter: with any other answer the recorder returns the same result.
\<close>

theorem record_scope_reexecute:
  assumes "record_scope B interp H tfs pc f (T, rec) = Inr (T', rec')"
  shows "record_scope B interp' H tfs pc f (T, rec) = Inr (T', rec') \<and>
         (\<exists>ds. described rec' = described rec @ ds \<and>
            list_all2 (\<lambda>d g. sd_reexecute d = (f_bci g \<noteq> - 1 \<and> f_bci g \<noteq> - 2 \<and> \<not> duringCall g))
              ds (rev (chain f)))"
proof -
  from record_scope_described[OF assms] obtain ds where
    d: "described rec' = described rec @ ds"
    and l: "list_all2 (\<lambda>d g. scope_of_frame d pc g \<and> sd_reexecute d = frame_reexecute g) ds (rev (chain f))"
    by blast
  from l have "list_all2 (\<lambda>d g. sd_reexecute d = (f_bci g \<noteq> - 1 \<and> f_bci g \<noteq> - 2 \<and> \<not> duringCall g))
              ds (rev (chain f))"
    by (rule list_all2_mono) (simp add: frame_reexecute_def)
  with d assms record_scope_interp[of B interp' H tfs pc f "(T, rec)" interp] show ?thesis
    by auto
qed

theorem record_scope_reexecute_witness:
  "record_scope debug_build (\<lambda>m b. True) [] 24 16 frame_C (empty_translation, []) =
   record_scope debug_build (\<lambda>m b. False) [] 24 16 frame_C (empty_translation, []) \<and>
   map sd_reexecute (described (snd (projr
     (record_scope debug_build (\<lambda>m b. True) [] 24 16 frame_C (empty_translation, [])))))
   = [False, False, True]"
proof -
  let ?rec = "[dump_object_pool [], describe_scope (scope_desc_of 16 frame_A \<lparr>locals = [], expressions = [], monitors = []\<rparr>),
           dump_object_pool [], describe_scope (scope_desc_of 16 frame_B \<lparr>locals = [], expressions = [], monitors = []\<rparr>),
           dump_object_pool [], describe_scope (scope_desc_of 16 frame_C \<lparr>locals = [], expressions = [], monitors = []\<rparr>)]"
  have h: "record_scope debug_build (\<lambda>m b. True) [] 24 16 frame_C (empty_translation, []) =
     Inr (empty_translation, ?rec)"
    unfolding frame_C_def frame_B_def frame_A_def
    by (simp add: record_scope_plain caller_result_def empty_translation_def)
  have m: "map sd_reexecute (described ?rec) = [False, False, True]"
    by (simp add: scope_desc_of_def frame_reexecute_def frame_C_def frame_B_def frame_A_def plain_frame_def)
  from record_scope_reexecute[OF h, of "\<lambda>m b. False"] h m show ?thesis by simp
qed


subsection \<open>Wide values\<close>


lemma second_slot_iff:
  "get_hotspot_value B H tfs T v = Inr (first, sec, T') \<Longrightarrow> sec \<noteq> None \<longleftrightarrow> two_slots v"
  by (cases v)
     (auto simp: get_hotspot_value.simps register_value_def stack_slot_value_def constant_value_def
                 Let_def vm_assert_def
           split: sum.splits if_splits prod.splits option.splits)




lemma values_loop_done: "length vals \<le> i \<Longrightarrow> values_loop B H tfs lc ec vals i L T = Inr (L, T)"
  by (subst values_loop.simps) simp

lemma values_loop_narrow:
  "i < length vals \<Longrightarrow> record_value B H tfs lc ec i (vals ! i) L T = Inr (None, L', T') \<Longrightarrow>
   values_loop B H tfs lc ec vals i L T = values_loop B H tfs lc ec vals (i + 1) L' T'"
  by (subst values_loop.simps) simp



subsection \<open>The site handlers\<close>

lemma next_call_type_emit [simp]: "next_call_type (emit ops st) = next_call_type st"
  by (simp add: emit_def)

lemma next_call_type_recorder_add [simp]: "next_call_type (recorder_add cs st) = next_call_type st"
  by (simp add: recorder_add_def)

lemma safepoint_with_scopes_next_call_type:
  "safepoint_with_scopes B interp H pc leaf di st = Inr st' \<Longrightarrow> next_call_type st' = next_call_type st"
  by (auto simp: safepoint_with_scopes_def split: sum.splits prod.splits)

lemma patch_method_call_fields:
  "patch_method_call B st pc m d = Inr st' \<Longrightarrow>
     \<exists>ops. st' = emit ops st \<and> next_call_type st \<noteq> MARK_INVOKE_INVALID \<and> next_call_type st \<in> invoke_marks"
  by (auto simp: patch_method_call_def Let_def invoke_marks_def split: sum.splits mark_id.splits
           intro: exI[of _ "[]"] simp: emit_def)

text \<open>
  Claim C8, as the code has it. The mark handler ends in \<^verbatim>\<open>ShouldNotReachHere\<close> exactly
  when the site has an id and the id is none of the known ones: no path reaches an
  unrecognized id and returns normally, and no known id takes the default branch.
\<close>

theorem site_Mark_unrecognized:
  "site_Mark B C st pc_offset id_obj references = Inl ShouldNotReachHere \<longleftrightarrow>
     (\<exists>n. id_obj = Some (unrecognized_mark n))"
  by (auto simp: site_Mark_def Let_def mark_inline_cache_def mark_patching_def vm_assert_def
           split: option.splits mark_id.splits list.splits if_splits sum.splits)

text \<open>
  A mark whose id is null is outside the switch (line 740): the handler returns normally
  and leaves the installer as it was.
\<close>

theorem site_Mark_null_counterexample:
  "site_Mark debug_build example_view example_state 0 None [] = Inr example_state"
  by (simp add: site_Mark_def)




lemma call_next_pc_offset_jump:
  "nativeInstruction_at C (instruction_at st pc) = is_jump \<Longrightarrow>
     call_next_pc_offset B C st pc m = Inr (pc + NativeCall_instruction_size B)"
  by (simp add: call_next_pc_offset_def)

text \<open>
  Claim C5. At a call whose target is an installed code unit, the handler returns as soon
  as it has written the jump to the verified entry point of the unit and the relocation
  of a runtime call: nothing else of the installer changes, so no safepoint is added and
  no scope recorded, with or without debug information at the site. It returns normally
  whenever the instruction at the site is a jump; with \<^verbatim>\<open>ASSERT\<close> it returns only
  then.
\<close>

theorem site_Call_installed_code:
  "(nativeInstruction_at C (instruction_at st pc) = is_jump \<longrightarrow>
      site_Call B C interp H st pc (HotSpotInstalledCode_target entry) di =
        Inr (emit (installed_code_patch (instruction_at st pc) entry) st)) \<and>
   (site_Call B C interp H st pc (HotSpotInstalledCode_target entry) di = Inr st' \<longrightarrow>
      st' = st\<lparr>buffer_ops := buffer_ops st @ installed_code_patch (instruction_at st pc) entry\<rparr> \<and>
      debug_recorder st' = debug_recorder st \<and>
      (ASSERT B \<longrightarrow> nativeInstruction_at C (instruction_at st pc) = is_jump))"
  by (auto simp: site_Call_def Let_def call_next_pc_offset_jump vm_assert_def emit_def
        installed_code_patch_def split: sum.splits if_splits)

theorem site_Call_installed_code_witness:
  "nativeInstruction_at example_view (instruction_at example_state 0) = is_jump \<and>
   site_Call debug_build example_view (\<lambda>m b. True) [] example_state 0
       (HotSpotInstalledCode_target 0x7000) (Some example_debug_info) =
     Inr (example_state\<lparr>buffer_ops :=
            [set_jump_destination 0x1000 (verified_entry_point 0x7000),
             relocate 0x1000 runtime_call_Relocation (Some call32_operand)]\<rparr>) \<and>
   debug_recorder (example_state\<lparr>buffer_ops :=
            [set_jump_destination 0x1000 (verified_entry_point 0x7000),
             relocate 0x1000 runtime_call_Relocation (Some call32_operand)]\<rparr>) = []"
proof -
  have i: "instruction_at example_state 0 = 0x1000"
    by (simp add: instruction_at_def example_state_def initialize_fields_def example_buffer_def)
  have j: "nativeInstruction_at example_view (instruction_at example_state 0) = is_jump"
    unfolding i by (simp add: example_view_def)
  have b: "buffer_ops example_state = []" "debug_recorder example_state = []"
    by (simp_all add: example_state_def initialize_fields_def)
  have "site_Call debug_build example_view (\<lambda>m b. True) [] example_state 0
       (HotSpotInstalledCode_target 0x7000) (Some example_debug_info) =
        Inr (emit (installed_code_patch (instruction_at example_state 0) 0x7000) example_state)"
    using site_Call_installed_code[of example_view example_state 0 debug_build "\<lambda>m b. True" "[]"
         "0x7000" "Some example_debug_info" example_state] j
    by blast
  then show ?thesis
    using j by (simp add: i b emit_def installed_code_patch_def)
qed

lemma next_call_type_patch_stub_call [simp]:
  "next_call_type (patch_stub_call C st pc s) = next_call_type st"
  by (simp add: patch_stub_call_def Let_def split: native_instruction.splits)

lemma next_call_type_finish_call [simp]:
  "next_call_type (finish_call di n st) = MARK_INVOKE_INVALID"
  by (simp add: finish_call_def Let_def)

lemma call_safepoint_next_call_type:
  "call_safepoint B interp H n di st = Inr st' \<Longrightarrow> next_call_type st' = next_call_type st"
  by (auto simp: call_safepoint_def split: option.splits dest: safepoint_with_scopes_next_call_type)

text \<open>
  Claim C4, as the code has it. A mark of an invocation style sets the pending call type
  to its id. A call of a Java method returns only when the pending call type is one of
  the invocation styles, and like a call of a runtime stub it leaves the pending call
  type invalid. A call whose target is an installed code unit leaves it as it was.
\<close>

theorem site_Call_next_call_type:
  "(i \<in> invoke_marks \<longrightarrow> site_Mark B C sm pcm (Some i) refs = Inr sm' \<longrightarrow> next_call_type sm' = i) \<and>
   (site_Call B C interp H st pc target di = Inr st' \<longrightarrow>
      next_call_type st' =
        (case target of HotSpotInstalledCode_target entry \<Rightarrow> next_call_type st
                      | _ \<Rightarrow> MARK_INVOKE_INVALID) \<and>
      (\<forall>m. target = JavaMethod_target m \<longrightarrow> next_call_type st \<in> invoke_marks - {MARK_INVOKE_INVALID}))"
proof (intro conjI impI)
  assume "i \<in> invoke_marks" "site_Mark B C sm pcm (Some i) refs = Inr sm'"
  then show "next_call_type sm' = i"
    by (auto simp: invoke_marks_def site_Mark_def Let_def mark_inline_cache_def
          set_next_call_type_def split: sum.splits)
next
  assume c: "site_Call B C interp H st pc target di = Inr st'"
  show "next_call_type st' =
        (case target of HotSpotInstalledCode_target entry \<Rightarrow> next_call_type st
                      | _ \<Rightarrow> MARK_INVOKE_INVALID)"
    using c
    by (cases target) (auto simp: site_Call_def Let_def split: sum.splits)
  show "\<forall>m. target = JavaMethod_target m \<longrightarrow> next_call_type st \<in> invoke_marks - {MARK_INVOKE_INVALID}"
  proof (intro allI impI)
    fix m assume t: "target = JavaMethod_target m"
    from c t obtain n st1 st2 where
      s: "call_safepoint B interp H n di st = Inr st1"
      and p: "patch_method_call B st1 pc m (di \<noteq> None) = Inr st2"
      by (auto simp: site_Call_def Let_def split: sum.splits)
    from s have "next_call_type st1 = next_call_type st"
      by (rule call_safepoint_next_call_type)
    with patch_method_call_fields[OF p] show "next_call_type st \<in> invoke_marks - {MARK_INVOKE_INVALID}"
      by auto
  qed
qed

lemma frame_loop_empty: "frame_loop B \<lparr>words = []\<rparr> 0 m = Inr m"
  by (subst frame_loop.simps) (simp add: bitmap_size_def)

lemma create_oop_map_no_maps:
  "create_oop_map B tfs pcount \<lparr>registerRefMap = None, frameRefMap = \<lparr>words = []\<rparr>\<rparr> =
     Inr (new_OopMap tfs pcount)"
  by (simp add: create_oop_map_def frame_loop_empty)

lemma record_scope_frame_A:
  "record_scope B interp H tfs pc frame_A (T, rec) =
     Inr (T, rec @ [dump_object_pool (objects T),
                    describe_scope (scope_desc_of pc frame_A no_scope_values)])"
  by (simp add: frame_A_def record_scope_plain caller_result_def no_scope_values_def)

lemma site_Mark_invokestatic:
  "site_Mark B C st pc (Some MARK_INVOKESTATIC) refs =
     Inr (st\<lparr>next_call_type := MARK_INVOKESTATIC, invoke_mark_pc := Some (instruction_at st pc)\<rparr>)"
  by (simp add: site_Mark_def set_next_call_type_def)

theorem site_Call_next_call_type_witness:
  "MARK_INVOKESTATIC \<in> invoke_marks \<and>
   site_Mark debug_build example_view example_state 16 (Some MARK_INVOKESTATIC) [] =
     Inr (example_state\<lparr>next_call_type := MARK_INVOKESTATIC, invoke_mark_pc := Some 0x1010\<rparr>) \<and>
   (case site_Call debug_build example_view (\<lambda>m b. True) []
           (example_state\<lparr>next_call_type := MARK_INVOKESTATIC, invoke_mark_pc := Some 0x1010\<rparr>)
           16 (JavaMethod_target (Some True)) (Some example_debug_info) of
      Inl e \<Rightarrow> False
    | Inr st2 \<Rightarrow> next_call_type st2 = MARK_INVOKE_INVALID)"
proof -
  let ?st1 = "example_state\<lparr>next_call_type := MARK_INVOKESTATIC, invoke_mark_pc := Some 0x1010\<rparr>"
  have i: "instruction_at example_state 16 = 0x1010" "instruction_at ?st1 16 = 0x1010"
    by (simp_all add: instruction_at_def example_state_def initialize_fields_def example_buffer_def)
  have m: "site_Mark debug_build example_view example_state 16 (Some MARK_INVOKESTATIC) [] = Inr ?st1"
    by (simp add: site_Mark_invokestatic i)
  have n: "call_next_pc_offset debug_build example_view ?st1 16 True = Inr 21"
    by (simp add: call_next_pc_offset_def i example_view_def debug_build_def product_build_def)
  have s: "\<exists>st'. call_safepoint debug_build example_view_interp [] 21 (Some example_debug_info) ?st1 = Inr st'"
    for example_view_interp
    by (simp add: call_safepoint_def safepoint_with_scopes_def example_debug_info_def
          create_oop_map_no_maps record_scope_at_def record_scope_frame_A)
  then obtain st' where s': "call_safepoint debug_build (\<lambda>m b. True) [] 21 (Some example_debug_info) ?st1 = Inr st'"
    by blast
  have nc: "next_call_type st' = MARK_INVOKESTATIC"
    using call_safepoint_next_call_type[OF s'] by simp
  have p: "\<exists>st''. patch_method_call debug_build st' 16 (Some True) True = Inr st''"
    by (simp add: patch_method_call_def nc vm_assert_def Let_def)
  then obtain st'' where p': "patch_method_call debug_build st' 16 (Some True) True = Inr st''"
    by blast
  have c: "site_Call debug_build example_view (\<lambda>m b. True) [] ?st1 16 (JavaMethod_target (Some True))
             (Some example_debug_info) = Inr (finish_call (Some example_debug_info) 21 st'')"
    by (simp add: site_Call_def n s' p')
  have "MARK_INVOKESTATIC \<in> invoke_marks" by (simp add: invoke_marks_def)
  with site_Call_next_call_type[of MARK_INVOKESTATIC debug_build example_view example_state 16 "[]" ?st1
         "\<lambda>m b. True" "[]" ?st1 16 "JavaMethod_target (Some True)" "Some example_debug_info"
         "finish_call (Some example_debug_info) 21 st''"] m c
  show ?thesis by simp
qed

text \<open>
  The dispatcher on a mark of a static invocation followed by a call of an installed code
  unit: the handler of the call returns at line 593, before the reset of line 668, and the
  pending call type is still that of the mark.
\<close>

theorem pending_call_type_counterexample:
  "sites_loop debug_build example_view (\<lambda>m b. True) []
     [Mark 0 (Some MARK_INVOKESTATIC) [], Call 0 (HotSpotInstalledCode_target 0x7000) None]
     example_state =
   Inr (example_state\<lparr>next_call_type := MARK_INVOKESTATIC, invoke_mark_pc := Some 0x1000,
          buffer_ops := [set_jump_destination 0x1000 (verified_entry_point 0x7000),
                         relocate 0x1000 runtime_call_Relocation (Some call32_operand)]\<rparr>) \<and>
   next_call_type (example_state\<lparr>next_call_type := MARK_INVOKESTATIC, invoke_mark_pc := Some 0x1000,
          buffer_ops := [set_jump_destination 0x1000 (verified_entry_point 0x7000),
                         relocate 0x1000 runtime_call_Relocation (Some call32_operand)]\<rparr>)
     \<noteq> MARK_INVOKE_INVALID"
proof -
  let ?st1 = "example_state\<lparr>next_call_type := MARK_INVOKESTATIC, invoke_mark_pc := Some 0x1000\<rparr>"
  have i: "instruction_at example_state 0 = 0x1000" "instruction_at ?st1 0 = 0x1000"
    by (simp_all add: instruction_at_def example_state_def initialize_fields_def example_buffer_def)
  have j: "nativeInstruction_at example_view 0x1000 = is_jump"
    by (simp add: example_view_def)
  have b: "buffer_ops example_state = []"
    by (simp add: example_state_def initialize_fields_def)
  have c: "site_Call debug_build example_view (\<lambda>m b. True) [] ?st1 0
             (HotSpotInstalledCode_target 0x7000) None =
           Inr (emit (installed_code_patch 0x1000 0x7000) ?st1)"
    by (simp add: site_Call_def Let_def i j call_next_pc_offset_def vm_assert_def installed_code_patch_def)
  show ?thesis
    by (simp add: dispatch_site_def site_Mark_invokestatic i c emit_def installed_code_patch_def b)
qed


subsection \<open>The frame size\<close>

lemma safepoint_maps_append [simp]:
  "safepoint_maps (xs @ ys) = safepoint_maps xs @ safepoint_maps ys"
  by (induction xs rule: safepoint_maps.induct) auto

lemma om_frame_size_om_add [simp]: "om_frame_size (om_add e m) = om_frame_size m"
  by (simp add: om_add_def)

lemma register_loop_frame_size:
  "register_loop B bm i m = Inr m' \<Longrightarrow> om_frame_size m' = om_frame_size m"
proof (induction B bm i m rule: register_loop.induct)
  case (1 B register_map i m)
  show ?case
  proof (cases "i < NUM_CPU_REGS")
    case False
    with "1.prems" show ?thesis by (subst (asm) register_loop.simps) simp
  next
    case True
    from "1.prems" True obtain is_oop reg where
      b: "is_bit_set B register_map i = Inr is_oop" and g: "get_hotspot_reg B i = Inr reg"
      by (subst (asm) register_loop.simps) (auto split: sum.splits)
    show ?thesis
    proof (cases is_oop)
      case True
      with "1.prems" \<open>i < NUM_CPU_REGS\<close> b g obtain u where
        a: "vm_assert B (OOP_ALLOWED ! i)
              ''this register may never be an oop, register map misaligned?'' = Inr u"
        and r: "register_loop B register_map (i + 1) (om_add (set_oop reg) m) = Inr m'"
        by (subst (asm) register_loop.simps) (auto split: sum.splits)
      from "1.IH"(1)[OF \<open>i < NUM_CPU_REGS\<close> b g True a r] show ?thesis by simp
    next
      case False
      with "1.prems" \<open>i < NUM_CPU_REGS\<close> b g have
        r: "register_loop B register_map (i + 1) (om_add (set_value reg) m) = Inr m'"
        by (subst (asm) register_loop.simps) (auto split: sum.splits)
      from "1.IH"(2)[OF \<open>i < NUM_CPU_REGS\<close> b g False r] show ?thesis by simp
    qed
  qed
qed

lemma frame_loop_frame_size:
  "frame_loop B bm i m = Inr m' \<Longrightarrow> om_frame_size m' = om_frame_size m"
proof (induction B bm i m rule: frame_loop.induct)
  case (1 B frame_map i m)
  show ?case
  proof (cases "i < bitmap_size frame_map")
    case False
    with "1.prems" show ?thesis by (subst (asm) frame_loop.simps) simp
  next
    case True
    from "1.prems" True obtain is_oop where
      b: "is_bit_set B frame_map i = Inr is_oop"
      by (subst (asm) frame_loop.simps) (auto split: sum.splits)
    show ?thesis
    proof (cases is_oop)
      case True
      with "1.prems" \<open>i < bitmap_size frame_map\<close> b have
        r: "frame_loop B frame_map (i + 1) (om_add (set_oop (stack2reg (i * 2))) m) = Inr m'"
        by (subst (asm) frame_loop.simps) (auto split: sum.splits simp: Let_def)
      from "1.IH"(1)[OF \<open>i < bitmap_size frame_map\<close> b refl True r] show ?thesis by simp
    next
      case False
      with "1.prems" \<open>i < bitmap_size frame_map\<close> b have
        r: "frame_loop B frame_map (i + 1) (om_add (set_value (stack2reg (i * 2))) m) = Inr m'"
        by (subst (asm) frame_loop.simps) (auto split: sum.splits simp: Let_def)
      from "1.IH"(2)[OF \<open>i < bitmap_size frame_map\<close> b refl False r] show ?thesis by simp
    qed
  qed
qed

lemma create_oop_map_frame_size:
  "create_oop_map B tfs pcount di = Inr m \<Longrightarrow> om_frame_size m = tfs"
  by (auto simp: create_oop_map_def Let_def new_OopMap_def
           split: sum.splits option.splits
           dest!: register_loop_frame_size frame_loop_frame_size)

lemma record_scope_safepoint_maps:
  "record_scope B interp H tfs pc f (T, rec) = Inr (T', rec') \<Longrightarrow>
     safepoint_maps rec' = safepoint_maps rec"
proof (induction "chain f" arbitrary: f T rec T' rec')
  case Nil
  then show ?case by (simp add: chain_unfold[of f])
next
  case (Cons g gs)
  from record_scope_Inr[OF Cons.prems] obtain T1 rec1 L where
    c: "caller_result B interp H tfs pc (f_caller f) (T, rec) = Inr (T1, rec1)"
    and r: "rec' = rec1 @ [dump_object_pool (objects T'), describe_scope (scope_desc_of pc f L)]"
    by auto
  have "safepoint_maps rec1 = safepoint_maps rec"
  proof (cases "f_caller f")
    case None
    with c show ?thesis by (simp add: caller_result_def)
  next
    case (Some cf)
    with c have rs: "record_scope B interp H tfs pc cf (T, rec) = Inr (T1, rec1)"
      by (simp add: caller_result_def)
    have "gs = chain cf" using Cons.hyps(2) Some by (simp add: chain_unfold[of f])
    from Cons.hyps(1)[OF this rs] show ?thesis .
  qed
  with r show ?case by simp
qed

lemma safepoint_with_scopes_frame_size:
  assumes "safepoint_with_scopes B interp H pc leaf di st = Inr st'"
  shows "total_frame_size st' = total_frame_size st \<and>
         (\<exists>m. safepoint_maps (debug_recorder st') = safepoint_maps (debug_recorder st) @ [m] \<and>
              om_frame_size m = total_frame_size st)"
proof -
  from assms obtain l m T rec where
    m: "create_oop_map B (total_frame_size st) (parameter_count st)
             \<lparr>registerRefMap = registerRefMap di, frameRefMap = frameRefMap di\<rparr> = Inr m"
    and r: "record_scope_at B interp H (total_frame_size st) pc (bytecodePosition di)
             (\<lparr>objects = [], next_ObjectValue = heap_top st, oop_recorder = metadata st\<rparr>,
              debug_recorder st @ [add_safepoint pc l m]) = Inr (T, rec)"
    and s: "st' = st\<lparr>debug_recorder := rec, heap_top := next_ObjectValue T,
                  metadata := oop_recorder T\<rparr>"
    by (auto simp: safepoint_with_scopes_def split: sum.splits prod.splits)
  from r obtain f where "bytecodePosition di = Some f"
    and "record_scope B interp H (total_frame_size st) pc f
             (\<lparr>objects = [], next_ObjectValue = heap_top st, oop_recorder = metadata st\<rparr>,
              debug_recorder st @ [add_safepoint pc l m]) = Inr (T, rec)"
    by (auto simp: record_scope_at_def split: option.splits)
  from record_scope_safepoint_maps[OF this(2)]
  have "safepoint_maps rec = safepoint_maps (debug_recorder st) @ [m]" by simp
  with s create_oop_map_frame_size[OF m] show ?thesis by simp
qed

lemma frame_size_ok_emit [simp]: "frame_size_ok (emit ops st) = frame_size_ok st"
  by (simp add: frame_size_ok_def emit_def)

lemma total_frame_size_emit [simp]: "total_frame_size (emit ops st) = total_frame_size st"
  by (simp add: emit_def)

lemma safepoint_with_scopes_ok:
  "safepoint_with_scopes B interp H pc leaf di st = Inr st' \<Longrightarrow> frame_size_ok st \<Longrightarrow>
     total_frame_size st' = total_frame_size st \<and> frame_size_ok st'"
  by (auto simp: frame_size_ok_def dest!: safepoint_with_scopes_frame_size)

lemma site_Safepoint_ok:
  "site_Safepoint B interp H st pc di = Inr st' \<Longrightarrow> frame_size_ok st \<Longrightarrow>
     total_frame_size st' = total_frame_size st \<and> frame_size_ok st'"
  by (auto simp: site_Safepoint_def recorder_add_def frame_size_ok_def
           split: sum.splits option.splits dest!: safepoint_with_scopes_frame_size)

lemma patch_method_call_ok:
  "patch_method_call B st pc m d = Inr st' \<Longrightarrow>
     total_frame_size st' = total_frame_size st \<and> frame_size_ok st' = frame_size_ok st"
  using patch_method_call_fields[of B st pc m d st'] by auto

lemma patch_stub_call_ok [simp]:
  "total_frame_size (patch_stub_call C st pc s) = total_frame_size st"
  "frame_size_ok (patch_stub_call C st pc s) = frame_size_ok st"
  by (simp_all add: patch_stub_call_def Let_def split: native_instruction.splits)

lemma finish_call_ok [simp]:
  "total_frame_size (finish_call di n st) = total_frame_size st"
  "frame_size_ok (finish_call di n st) = frame_size_ok st"
  by (simp_all add: finish_call_def Let_def recorder_add_def frame_size_ok_def)

lemma call_safepoint_ok:
  "call_safepoint B interp H n di st = Inr st' \<Longrightarrow> frame_size_ok st \<Longrightarrow>
     total_frame_size st' = total_frame_size st \<and> frame_size_ok st'"
  by (auto simp: call_safepoint_def split: option.splits dest: safepoint_with_scopes_ok)

lemma site_Call_ok:
  assumes "site_Call B C interp H st pc target di = Inr st'" "frame_size_ok st"
  shows "total_frame_size st' = total_frame_size st \<and> frame_size_ok st'"
proof (cases target)
  case (Long_target s)
  with assms show ?thesis
    by (auto simp: site_Call_def Let_def split: sum.splits dest!: call_safepoint_ok)
next
  case (HotSpotInstalledCode_target e)
  with assms show ?thesis
    by (auto simp: site_Call_def Let_def split: sum.splits)
next
  case (JavaMethod_target m)
  with assms show ?thesis
    by (auto simp: site_Call_def Let_def split: sum.splits
             dest!: call_safepoint_ok patch_method_call_ok)
qed

lemma patch_out_of_line_ok:
  "patch_out_of_line B C st inst prim a = Inr st' \<Longrightarrow>
     total_frame_size st' = total_frame_size st \<and> frame_size_ok st' = frame_size_ok st"
  by (auto simp: patch_out_of_line_def Let_def frame_size_ok_def emit_def split: sum.splits if_splits)

lemma site_DataPatch_ok:
  "site_DataPatch B C st pc k prim obj a inl = Inr st' \<Longrightarrow>
     total_frame_size st' = total_frame_size st \<and> frame_size_ok st' = frame_size_ok st"
  by (auto simp: site_DataPatch_def Let_def frame_size_ok_def emit_def
           split: sum.splits if_splits dest!: patch_out_of_line_ok)

lemma mark_patching_ok:
  "mark_patching B C af inst refs st = Inr st' \<Longrightarrow>
     total_frame_size st' = total_frame_size st \<and> frame_size_ok st' = frame_size_ok st"
  by (auto simp: mark_patching_def Let_def split: sum.splits if_splits list.splits)

lemma site_Mark_ok:
  "site_Mark B C st pc id_obj refs = Inr st' \<Longrightarrow>
     total_frame_size st' = total_frame_size st \<and> frame_size_ok st' = frame_size_ok st"
  by (cases id_obj; cases "the id_obj")
     (auto simp: site_Mark_def Let_def mark_inline_cache_def set_next_call_type_def mark_poll_def
                 frame_size_ok_def emit_def
           split: sum.splits list.splits dest!: mark_patching_ok)

lemma dispatch_site_ok:
  "dispatch_site B C interp H st s = Inr st' \<Longrightarrow> frame_size_ok st \<Longrightarrow>
     total_frame_size st' = total_frame_size st \<and> frame_size_ok st'"
  by (cases s)
     (auto simp: dispatch_site_def dest: site_Call_ok site_Safepoint_ok site_DataPatch_ok site_Mark_ok)

lemma sites_loop_ok:
  "sites_loop B C interp H ss st = Inr st' \<Longrightarrow> frame_size_ok st \<Longrightarrow>
     total_frame_size st' = total_frame_size st \<and> frame_size_ok st'"
proof (induction ss arbitrary: st)
  case Nil
  then show ?case by simp
next
  case (Cons s ss)
  from Cons.prems(1) obtain st1 where
    d: "dispatch_site B C interp H st s = Inr st1" and l: "sites_loop B C interp H ss st1 = Inr st'"
    by (auto split: sum.splits)
  from dispatch_site_ok[OF d Cons.prems(2)] Cons.IH[OF l] show ?case by simp
qed


subsection \<open>Out-of-line constants\<close>

lemma and_not_mask_int: "(x :: int) AND NOT (mask n) = (x div 2 ^ n) * 2 ^ n"
proof -
  have "x AND NOT (mask n) = push_bit n (drop_bit n x)"
    by (rule bit_eqI) (auto simp: bit_simps)
  then show ?thesis by (simp add: push_bit_eq_mult drop_bit_eq_div)
qed

lemma align_size_up_power:
  "align_size_up s (2 ^ n) = ((s + (2 ^ n - 1)) div 2 ^ n) * 2 ^ n"
  using and_not_mask_int[of "s + (2 ^ n - 1)" n] by (simp add: align_size_up_def mask_int_def)

lemma align_size_up_mod: "align_size_up s (2 ^ n) mod 2 ^ n = 0"
  by (simp add: align_size_up_power)

lemma align_size_up_bounds:
  "s \<le> align_size_up s (2 ^ n) \<and> align_size_up s (2 ^ n) < s + 2 ^ n"
proof -
  let ?a = "(2 :: int) ^ n"
  let ?x = "s + (?a - 1)"
  have a: "0 < ?a" by simp
  have "?x = ?x div ?a * ?a + ?x mod ?a" by (rule div_mult_mod_eq[symmetric])
  moreover have "0 \<le> ?x mod ?a" "?x mod ?a \<le> ?a - 1" using a by simp_all
  ultimately have "?x - (?a - 1) \<le> ?x div ?a * ?a" "?x div ?a * ?a \<le> ?x" by linarith+
  then show ?thesis by (simp add: align_size_up_power)
qed

text \<open>
  A distance that fits in 32 bits survives the cut to \<^verbatim>\<open>jint\<close>: the condition of the
  assertion of line 712 holds for two addresses less than \<open>2 ^ 31\<close> bytes apart, and so
  for any two addresses inside a code buffer of less than \<open>2 ^ 31\<close> bytes.
\<close>

lemma jint_round_trip:
  assumes "- (2 ^ 31) \<le> k" "k < 2 ^ 31"
  shows "scast (ucast (word_of_int k :: address) :: jint) = (word_of_int k :: address)"
proof -
  have d: "is_down (ucast :: address \<Rightarrow> jint)" by (simp add: is_down)
  have "sint (word_of_int k :: jint) = k"
    using assms by (simp add: sint_sbintrunc' signed_take_bit_int_eq_self)
  then have "scast (word_of_int k :: jint) = (word_of_int k :: address)"
    by (simp only: scast_eq)
  then show ?thesis
    unfolding ucast_down_wi[OF d] .
qed

lemma within_jint_fits:
  assumes "within_jint a b"
  shows "scast (ucast (a - b) :: jint) = a - b"
proof -
  have "a - b = word_of_int (uint a - uint b)" by simp
  with jint_round_trip[of "uint a - uint b"] assms show ?thesis
    by (simp only: within_jint_def)
qed

lemma one_buffer_within_jint:
  assumes "uint base \<le> uint a" "uint a \<le> uint base + n"
    and "uint base \<le> uint b" "uint b \<le> uint base + n" and "n < 2 ^ 31"
  shows "within_jint a b"
  using assms by (simp add: within_jint_def)

lemma patch_out_of_line_aligned:
  assumes "0 < a" "a \<le> consts_alignment st"
    and "within_jint (consts_start st + word_of_int (align_size_up (consts_size st) a))
           (locate_next_instruction C instruction)"
  shows "patch_out_of_line B C st instruction prim a =
     Inr (st\<lparr>consts_size := align_size_up (consts_size st) a + BytesPerLong,
             buffer_ops := buffer_ops st @
               out_of_line_ops C instruction
                 (consts_start st + word_of_int (align_size_up (consts_size st) a)) prim\<rparr>)"
  using assms(1,2) within_jint_fits[OF assms(3)]
  by (simp add: patch_out_of_line_def Let_def guarantee_def vm_assert_def emit_def
        out_of_line_ops_def)

lemma patch_out_of_line_guarantee:
  assumes "0 < a" "consts_alignment st < a"
  shows "patch_out_of_line B C st instruction prim a =
     Inl (GuaranteeFailed
            ''Alignment inside constants section is restricted by alignment of section begin'')"
  using assms by (simp add: patch_out_of_line_def Let_def guarantee_def)

text \<open>
  Claim C7, as the code has it. An object constant is patched into the instruction as an
  immediate whatever \<^verbatim>\<open>inlined\<close> says. For a float, long or double constant that is not
  inlined, whose metadata the oop recorder takes, and a positive alignment: an alignment
  above that of the constants section ends the installation with the failed
  \<^verbatim>\<open>guarantee\<close>; otherwise, with the constant and the next instruction inside one code
  buffer (less than \<open>2 ^ 31\<close> bytes apart), the handler returns in every build, the
  constant is written at the offset \<^verbatim>\<open>align_size_up\<close> gives for the size of the
  section, the operand gets the distance from the next instruction to the constant, and
  adding the operand back to the address of the next instruction gives the address of the
  constant. When the alignment is a power of two, that offset is a multiple of it, the
  first one at or above the old end of the section.
\<close>

theorem site_DataPatch_out_of_line:
  assumes "inst = instruction_at st pc"
    and "off = align_size_up (consts_size st) a"
    and "dest = consts_start st + word_of_int off"
    and "next_instruction = locate_next_instruction C inst"
  shows "(typeChar k = CHR ''a'' \<longrightarrow>
            site_DataPatch B C st pc k prim obj a inlined =
              Inr (emit [store_jobject (locate_operand C inst imm_operand) obj,
                         relocate inst oop_Relocation_immediate (Some imm_operand)] st)) \<and>
         (primitive_patch k \<and> record_metadata_in_constant B k prim obj (metadata st) = Inr rec \<and>
          0 < a \<and> consts_alignment st < a \<longrightarrow>
            site_DataPatch B C st pc k prim obj a False =
              Inl (GuaranteeFailed
                ''Alignment inside constants section is restricted by alignment of section begin'')) \<and>
         (primitive_patch k \<and> record_metadata_in_constant B k prim obj (metadata st) = Inr rec \<and>
          0 < a \<and> a \<le> consts_alignment st \<and> within_jint dest next_instruction \<longrightarrow>
            site_DataPatch B C st pc k prim obj a False =
              Inr (st\<lparr>metadata := rec, consts_size := off + BytesPerLong,
                      buffer_ops := buffer_ops st @
                        [store_jlong dest prim,
                         store_jint (locate_operand C inst disp32_operand)
                           (ucast (dest - next_instruction)),
                         relocate inst (section_word_Relocation dest) (Some disp32_operand)]\<rparr>) \<and>
            next_instruction + scast (ucast (dest - next_instruction) :: jint) = dest \<and>
            (a = 2 ^ n \<longrightarrow> off mod a = 0 \<and> consts_size st \<le> off \<and> off < consts_size st + a))"
proof (intro conjI impI)
  assume "typeChar k = CHR ''a''"
  then show "site_DataPatch B C st pc k prim obj a inlined =
              Inr (emit [store_jobject (locate_operand C inst imm_operand) obj,
                         relocate inst oop_Relocation_immediate (Some imm_operand)] st)"
    by (simp add: site_DataPatch_def Let_def assms(1))
next
  assume h: "primitive_patch k \<and> record_metadata_in_constant B k prim obj (metadata st) = Inr rec \<and>
          0 < a \<and> consts_alignment st < a"
  then have "patch_out_of_line B C (st\<lparr>metadata := rec\<rparr>) inst prim a =
     Inl (GuaranteeFailed
            ''Alignment inside constants section is restricted by alignment of section begin'')"
    by (intro patch_out_of_line_guarantee) simp_all
  with h show "site_DataPatch B C st pc k prim obj a False =
              Inl (GuaranteeFailed
                ''Alignment inside constants section is restricted by alignment of section begin'')"
    by (auto simp: site_DataPatch_def Let_def primitive_patch_def assms(1))
next
  assume h: "primitive_patch k \<and> record_metadata_in_constant B k prim obj (metadata st) = Inr rec \<and>
          0 < a \<and> a \<le> consts_alignment st \<and> within_jint dest next_instruction"
  then have "patch_out_of_line B C (st\<lparr>metadata := rec\<rparr>) inst prim a =
     Inr (st\<lparr>metadata := rec, consts_size := off + BytesPerLong,
             buffer_ops := buffer_ops st @ out_of_line_ops C inst dest prim\<rparr>)"
    using patch_out_of_line_aligned[of a "st\<lparr>metadata := rec\<rparr>" C inst B prim]
    by (simp add: assms(2,3,4))
  with h show "site_DataPatch B C st pc k prim obj a False =
              Inr (st\<lparr>metadata := rec, consts_size := off + BytesPerLong,
                      buffer_ops := buffer_ops st @
                        [store_jlong dest prim,
                         store_jint (locate_operand C inst disp32_operand)
                           (ucast (dest - next_instruction)),
                         relocate inst (section_word_Relocation dest) (Some disp32_operand)]\<rparr>)"
    by (auto simp: site_DataPatch_def Let_def primitive_patch_def assms(1,4) out_of_line_ops_def)
  from h have "within_jint dest next_instruction" by simp
  from within_jint_fits[OF this]
  show "next_instruction + scast (ucast (dest - next_instruction) :: jint) = dest" by simp
  {
    assume "a = 2 ^ n"
    then show "off mod a = 0" "consts_size st \<le> off" "off < consts_size st + a"
      using align_size_up_bounds[of "consts_size st" n]
      by (simp_all add: assms(2) align_size_up_mod)
  }
qed

lemma example_state_fields:
  "insts_start example_state = 0x1000" "consts_start example_state = 0x2000"
  "consts_size example_state = 0" "consts_alignment example_state = 16"
  "buffer_ops example_state = []" "metadata example_state = []"
  by (simp_all add: example_state_def initialize_fields_def example_buffer_def)

lemma one_constant_fields:
  "insts_start one_constant = 0x1000" "consts_start one_constant = 0x2000"
  "consts_size one_constant = 8" "consts_alignment one_constant = 16"
  "metadata one_constant = []"
  "buffer_ops one_constant =
     [store_jlong 0x2000 1, store_jint 0x1003 0xFF9,
      relocate 0x1000 (section_word_Relocation 0x2000) (Some disp32_operand)]"
  by (simp_all add: one_constant_def example_state_fields)

lemma example_view_locate:
  "locate_operand example_view a f = a + 3" "locate_next_instruction example_view a = a + 7"
  by (simp_all add: example_view_def)

lemma first_constant:
  "site_DataPatch product_build example_view example_state 0 Kind_Long 1 NULL_oop 0 False =
     Inr one_constant"
proof -
  have "instruction_at example_state 0 = 0x1000"
    by (simp add: instruction_at_def example_state_fields)
  then show ?thesis
    by (simp add: site_DataPatch_def Kind_Long_def record_metadata_in_constant_def
          patch_out_of_line_def Let_def guarantee_def vm_assert_def example_state_fields
          example_view_locate BytesPerLong_def emit_def product_build_def one_constant_def)
qed

text \<open>
  In a product build, after a first constant at offset 0: a long constant with alignment
  16 for the instruction at offset 16 is written at offset 16 of the constants section,
  and the operand leads from the next instruction back to it. An object constant that is
  not inlined is written into the instruction.
\<close>

theorem site_DataPatch_out_of_line_witness:
  "site_DataPatch product_build example_view example_state 0 Kind_Long 1 NULL_oop 0 False =
     Inr one_constant \<and>
   typeChar Kind_Object = CHR ''a'' \<and>
   site_DataPatch product_build example_view one_constant 16 Kind_Object 0 (Other_oop 5) 16 False =
     Inr (emit [store_jobject 0x1013 (Other_oop 5),
                relocate 0x1010 oop_Relocation_immediate (Some imm_operand)] one_constant) \<and>
   primitive_patch Kind_Long \<and>
   record_metadata_in_constant product_build Kind_Long 42 NULL_oop (metadata one_constant) = Inr [] \<and>
   (16 :: int) = 2 ^ 4 \<and> 16 \<le> consts_alignment one_constant \<and>
   within_jint 0x2010 0x1017 \<and>
   site_DataPatch product_build example_view one_constant 16 Kind_Long 42 NULL_oop 16 False =
     Inr (one_constant\<lparr>metadata := [], consts_size := 16 + BytesPerLong,
            buffer_ops := buffer_ops one_constant @
              [store_jlong 0x2010 42, store_jint 0x1013 0xFF9,
               relocate 0x1010 (section_word_Relocation 0x2010) (Some disp32_operand)]\<rparr>) \<and>
   (0x1017 :: address) + scast (0xFF9 :: jint) = 0x2010 \<and>
   (16 :: int) mod 16 = 0"
proof -
  have i: "0x1010 = instruction_at one_constant 16"
    by (simp add: instruction_at_def one_constant_fields)
  have o: "(16 :: int) = align_size_up (consts_size one_constant) 16"
    by (simp add: align_size_up_def one_constant_fields)
  have d: "(0x2010 :: address) = consts_start one_constant + word_of_int 16"
    by (simp add: one_constant_fields)
  have n: "(0x1017 :: address) = locate_next_instruction example_view 0x1010"
    by (simp add: example_view_locate)
  have k: "typeChar Kind_Object = CHR ''a''" "primitive_patch Kind_Long"
    by (simp_all add: Kind_Object_def primitive_patch_def Kind_Long_def)
  have r: "record_metadata_in_constant product_build Kind_Long 42 NULL_oop (metadata one_constant) =
             Inr []"
    by (simp add: record_metadata_in_constant_def Kind_Long_def one_constant_fields)
  have w: "within_jint 0x2010 0x1017" by (simp add: within_jint_def)
  have a: "(0 :: int) < 16" "(16 :: int) \<le> consts_alignment one_constant"
    by (simp_all add: one_constant_fields)
  from site_DataPatch_out_of_line[OF i o d n, of Kind_Object product_build 42 "Other_oop 5" False
         "[]" 4] k
  have 1: "site_DataPatch product_build example_view one_constant 16 Kind_Object 42 (Other_oop 5) 16
             False =
     Inr (emit [store_jobject 0x1013 (Other_oop 5),
                relocate 0x1010 oop_Relocation_immediate (Some imm_operand)] one_constant)"
    by (simp add: example_view_locate)
  have 1: "site_DataPatch product_build example_view one_constant 16 Kind_Object 0 (Other_oop 5) 16
             False =
     Inr (emit [store_jobject 0x1013 (Other_oop 5),
                relocate 0x1010 oop_Relocation_immediate (Some imm_operand)] one_constant)"
    using 1 by (simp add: site_DataPatch_def Kind_Object_def)
  from site_DataPatch_out_of_line[OF i o d n, of Kind_Long product_build 42 NULL_oop False
         "[]" 4] k r w a(1,2)
  have 2: "site_DataPatch product_build example_view one_constant 16 Kind_Long 42 NULL_oop 16 False =
     Inr (one_constant\<lparr>metadata := [], consts_size := 16 + BytesPerLong,
            buffer_ops := buffer_ops one_constant @
              [store_jlong 0x2010 42, store_jint 0x1013 0xFF9,
               relocate 0x1010 (section_word_Relocation 0x2010) (Some disp32_operand)]\<rparr>)"
    and 3: "(0x1017 :: address) + scast (0xFF9 :: jint) = 0x2010"
    by (simp_all add: example_view_locate)
  from first_constant 1 2 3 k r w a(2) show ?thesis by simp
qed

text \<open>
  In a product build: an object constant with \<^verbatim>\<open>inlined\<close> false is written into the
  instruction and nothing goes to the constants section. And after a first constant at
  offset 0, a long constant with alignment 3, which the section's alignment of 16 allows,
  is written at offset 8, which is no multiple of 3.
\<close>

theorem site_DataPatch_counterexample:
  "site_DataPatch product_build example_view example_state 0 Kind_Object 0 (Other_oop 5) 8 False =
     Inr (example_state\<lparr>buffer_ops :=
            [store_jobject 0x1003 (Other_oop 5),
             relocate 0x1000 oop_Relocation_immediate (Some imm_operand)]\<rparr>) \<and>
   consts_size (example_state\<lparr>buffer_ops :=
            [store_jobject 0x1003 (Other_oop 5),
             relocate 0x1000 oop_Relocation_immediate (Some imm_operand)]\<rparr>) = 0 \<and>
   site_DataPatch product_build example_view example_state 0 Kind_Long 1 NULL_oop 0 False =
     Inr one_constant \<and>
   (3 :: int) \<le> consts_alignment one_constant \<and>
   site_DataPatch product_build example_view one_constant 16 Kind_Long 42 NULL_oop 3 False =
     Inr (one_constant\<lparr>consts_size := 16,
            buffer_ops := buffer_ops one_constant @
              [store_jlong 0x2008 42, store_jint 0x1013 0xFF1,
               relocate 0x1010 (section_word_Relocation 0x2008) (Some disp32_operand)]\<rparr>) \<and>
   (8 :: int) mod 3 \<noteq> 0"
proof -
  have i: "instruction_at example_state 0 = 0x1000" "instruction_at one_constant 16 = 0x1010"
    by (simp_all add: instruction_at_def example_state_fields one_constant_fields)
  have a: "site_DataPatch product_build example_view example_state 0 Kind_Object 0 (Other_oop 5) 8
             False =
     Inr (example_state\<lparr>buffer_ops :=
            [store_jobject 0x1003 (Other_oop 5),
             relocate 0x1000 oop_Relocation_immediate (Some imm_operand)]\<rparr>)"
    by (simp add: site_DataPatch_def Kind_Object_def i example_view_locate emit_def
          example_state_fields)
  note b = first_constant
  have c: "site_DataPatch product_build example_view one_constant 16 Kind_Long 42 NULL_oop 3 False =
     Inr (one_constant\<lparr>consts_size := 16,
            buffer_ops := buffer_ops one_constant @
              [store_jlong 0x2008 42, store_jint 0x1013 0xFF1,
               relocate 0x1010 (section_word_Relocation 0x2008) (Some disp32_operand)]\<rparr>)"
    by (simp add: site_DataPatch_def Kind_Long_def record_metadata_in_constant_def i
          patch_out_of_line_def Let_def guarantee_def vm_assert_def one_constant_fields
          example_view_locate align_size_up_def BytesPerLong_def emit_def product_build_def)
  show ?thesis using a b c by (simp add: example_state_fields one_constant_fields)
qed

subsection \<open>Virtual objects\<close>

lemma grows_refl [simp]: "grows T T"
  by (simp add: grows_def)

lemma grows_trans: "grows T T' \<Longrightarrow> grows T' T'' \<Longrightarrow> grows T T''"
  by (auto simp: grows_def)

lemma skeleton_append_field [simp]: "skeleton (append_field a x T) = skeleton T"
proof -
  have h: "map (\<lambda>(a, obj). (a, ov_id obj)) (map (\<lambda>(b, obj). if b = a
            then (b, obj\<lparr>ov_field_values := ov_field_values obj @ [x]\<rparr>)
            else (b, obj)) xs) = map (\<lambda>(a, obj). (a, ov_id obj)) xs" for xs
    by (induction xs) (auto split: prod.splits)
  show ?thesis
    unfolding skeleton_def objects_append_field h ..
qed

lemma skeleton_append_field_values [simp]: "skeleton (append_field_values a v s T) = skeleton T"
  by (simp add: append_field_values_def split: option.splits)

lemma skeleton_oop_recorder [simp]: "skeleton (T\<lparr>oop_recorder := r\<rparr>) = skeleton T"
  by (simp add: skeleton_def)

lemma skeleton_new_ObjectValue [simp]:
  "skeleton (snd (new_ObjectValue vo T)) = skeleton T @ [(next_ObjectValue T, vo_id vo)]"
  by (simp add: skeleton_def new_ObjectValue_def Let_def)

lemma fst_new_ObjectValue [simp]: "fst (new_ObjectValue vo T) = next_ObjectValue T"
  by (simp add: new_ObjectValue_def Let_def)

lemma seen_ids_skeleton: "seen_ids T = snd ` set (skeleton T)"
  by (force simp: seen_ids_def skeleton_def image_iff split: prod.splits)

lemma lookup_id_skeleton:
  "lookup_id i T = map_option fst (find (\<lambda>(a, j). j = i) (skeleton T))"
proof -
  have "map_option fst (find (\<lambda>(a, obj). ov_id obj = i) xs) =
        map_option fst (find (\<lambda>(a, j). j = i) (map (\<lambda>(a, obj). (a, ov_id obj)) xs))" for xs
    by (induction xs) (auto split: prod.splits)
  then show ?thesis by (simp add: lookup_id_def find_object_def skeleton_def)
qed

lemma lookup_id_grows:
  "grows T T' \<Longrightarrow> lookup_id i T = Some a \<Longrightarrow> lookup_id i T' = Some a"
proof -
  have "map_option fst (find P xs) = Some a \<Longrightarrow> map_option fst (find P (xs @ ys)) = Some a"
    for P and xs ys :: "(nat \<times> jint) list"
    by (induction xs) auto
  then show "grows T T' \<Longrightarrow> lookup_id i T = Some a \<Longrightarrow> lookup_id i T' = Some a"
    by (auto simp: grows_def lookup_id_skeleton)
qed

lemma lookup_id_new:
  "find_object (vo_id vo) T = None \<Longrightarrow>
     lookup_id (vo_id vo) (snd (new_ObjectValue vo T)) = Some (next_ObjectValue T)"
proof -
  have "find P xs = None \<Longrightarrow> P y \<Longrightarrow> find P (xs @ [y]) = Some y" for P and xs :: "(nat \<times> jint) list" and y
    by (induction xs) (auto split: if_splits)
  moreover assume "find_object (vo_id vo) T = None"
  then have "find (\<lambda>(a, j). j = vo_id vo) (skeleton T) = None"
    using lookup_id_skeleton[of "vo_id vo" T] by (simp add: lookup_id_def)
  ultimately show ?thesis
    by (simp add: lookup_id_skeleton)
qed

lemma stableD:
  assumes "stable P"
  shows "\<And>T r. P T \<Longrightarrow> P (T\<lparr>oop_recorder := r\<rparr>)"
    and "\<And>T a v s. P T \<Longrightarrow> P (append_field_values a v s T)"
    and "\<And>T vo. P T \<Longrightarrow> find_object (vo_id vo) T = None \<Longrightarrow> P (snd (new_ObjectValue vo T))"
  using assms by (auto simp: stable_def)

lemma stable_grows: "stable (grows T)"
  by (auto simp: stable_def grows_def)

lemma stable_unique_ids: "stable unique_ids"
  by (auto simp: stable_def unique_ids_def find_object_None seen_ids_skeleton)

lemma translated_preserves:
  assumes st: "stable P"
  shows "get_hotspot_value B H tfs T v = Inr (x, s, T') \<Longrightarrow> P T \<Longrightarrow> P T'"
    and "field_loop B H tfs la a T fs = Inr T' \<Longrightarrow> P T \<Longrightarrow> P T'"
proof (induction B H tfs T v and B H tfs la a T fs arbitrary: x s T' and T'
       rule: get_hotspot_value_field_loop.induct)
  case (1 B H total_frame_size T)
  then show ?case by (simp add: get_hotspot_value.simps)
next
  case (2 B H total_frame_size T k number)
  then show ?case by (auto simp: get_hotspot_value.simps split: sum.splits)
next
  case (3 B H total_frame_size T k slot_offset addFrameSize)
  then show ?case by (auto simp: get_hotspot_value.simps split: prod.splits)
next
  case (4 B H total_frame_size T k prim obj)
  then show ?case by (auto simp: get_hotspot_value.simps stableD(1)[OF st] split: sum.splits)
next
  case (5 B H total_frame_size T k h)
  note eq = get_hotspot_value.simps(5)[of B H total_frame_size T k h]
  show ?case
  proof (cases "h < length H")
    case False
    with "5.prems" eq show ?thesis by simp
  next
    case True
    show ?thesis
    proof (cases "find_object (vo_id (H ! h)) T")
      case (Some p)
      with eq True "5.prems" show ?thesis by (simp split: prod.splits)
    next
      case None
      with True eq "5.prems"(1)
      have "field_loop B H total_frame_size (vo_klass (H ! h) = longArrayKlassObj)
              (fst (new_ObjectValue (H ! h) T)) (snd (new_ObjectValue (H ! h) T))
              (vo_values (H ! h)) = Inr T'"
        by (simp split: sum.splits)
      from "5.IH"[OF True None this] stableD(3)[OF st "5.prems"(2) None] show ?thesis .
    qed
  qed
next
  case (6 B H total_frame_size T k owner lockData eliminated)
  then show ?case by (simp add: get_hotspot_value.simps)
next
  case (7 B H total_frame_size T k)
  then show ?case by (simp add: get_hotspot_value.simps)
next
  case (8 B H total_frame_size isLongArray a T)
  then show ?case by (simp add: field_loop.simps)
next
  case (9 B H total_frame_size isLongArray a T f fs)
  note eq = field_loop.simps(2)[of B H total_frame_size isLongArray a T f fs]
  from eq "9.prems"(1) obtain v cs T1 where
    g: "get_hotspot_value B H total_frame_size T f = Inr (v, cs, T1)"
    by (cases "get_hotspot_value B H total_frame_size T f") auto
  obtain v' cs' where p: "pad_long_array B isLongArray v cs = (v', cs')"
    by (cases "pad_long_array B isLongArray v cs")
  from eq "9.prems"(1) g p have
    r: "field_loop B H total_frame_size isLongArray a (append_field_values a v' cs' T1) fs = Inr T'"
    by simp
  have "P T1" using "9.IH"(1)[OF g "9.prems"(2)] .
  then have "P (append_field_values a v' cs' T1)" by (rule stableD(2)[OF st])
  with "9.IH"(2)[OF g _ _ p[symmetric] r] show ?case by simp
qed

lemma translated_grows:
  "get_hotspot_value B H tfs T v = Inr (x, s, T') \<Longrightarrow> grows T T'"
  using translated_preserves(1)[OF stable_grows, of B H tfs T v x s T' T] by simp

lemma field_loop_grows:
  "field_loop B H tfs la a T fs = Inr T' \<Longrightarrow> grows T T'"
  using translated_preserves(2)[OF stable_grows, of B H tfs la a T fs T' T] by simp

lemma translated_unique_ids:
  "get_hotspot_value B H tfs T v = Inr (x, s, T') \<Longrightarrow> unique_ids T \<Longrightarrow> unique_ids T'"
  by (rule translated_preserves(1)[OF stable_unique_ids])

lemma virtual_object_translated:
  assumes "get_hotspot_value B H tfs T (VirtualObject k h) = Inr (v, s, T')"
  shows "h < length H \<and> s = None \<and> (\<exists>a. v = ObjectValue_at a \<and> lookup_id (vo_id (H ! h)) T' = Some a)"
proof -
  note eq = get_hotspot_value.simps(5)[of B H tfs T k h]
  from assms eq have h: "h < length H" by (auto split: if_splits)
  show ?thesis
  proof (cases "find_object (vo_id (H ! h)) T")
    case (Some p)
    with eq h assms show ?thesis by (auto simp: lookup_id_def split: prod.splits)
  next
    case None
    with h eq assms have
      f: "field_loop B H tfs (vo_klass (H ! h) = longArrayKlassObj)
              (fst (new_ObjectValue (H ! h) T)) (snd (new_ObjectValue (H ! h) T))
              (vo_values (H ! h)) = Inr T'"
      and v: "v = ObjectValue_at (next_ObjectValue T)" "s = None"
      by (auto split: sum.splits)
    from lookup_id_grows[OF field_loop_grows[OF f] lookup_id_new[OF None]] v h
    show ?thesis by simp
  qed
qed

lemma virtual_object_again:
  assumes "lookup_id (vo_id (H ! h)) T = Some a" "h < length H"
  shows "get_hotspot_value B H tfs T (VirtualObject k h) = Inr (ObjectValue_at a, None, T)"
  using assms
  by (auto simp: get_hotspot_value.simps lookup_id_def split: option.splits)

lemma get_monitor_value_preserves:
  assumes st: "stable P"
  shows "get_monitor_value B H tfs T v = Inr (m, T') \<Longrightarrow> P T \<Longrightarrow> P T'"
proof (cases v)
  case (code_MonitorValue k owner lockData eliminated)
  assume a: "get_monitor_value B H tfs T v = Inr (m, T')" and p: "P T"
  obtain ov s1 T1 where o: "get_hotspot_value B H tfs T owner = Inr (ov, s1, T1)"
    using a code_MonitorValue
    by (cases "get_hotspot_value B H tfs T owner") auto
  obtain lv s2 T2 where l0: "get_hotspot_value B H tfs T1 lockData = Inr (lv, s2, T2)"
    using a code_MonitorValue o
    by (cases "get_hotspot_value B H tfs T1 lockData") (auto split: sum.splits)
  have "T2 = T'"
    using a code_MonitorValue o l0
    by (cases lv) (auto split: sum.splits)
  with l0 have l: "get_hotspot_value B H tfs T1 lockData = Inr (lv, s2, T')" by simp
  from translated_preserves(1)[OF st o p] have "P T1" .
  from translated_preserves(1)[OF st l this] show "P T'" .
qed (auto)

lemma record_value_preserves:
  assumes st: "stable P"
  shows "record_value B H tfs lc ec i v L T = Inr (s, L', T') \<Longrightarrow> P T \<Longrightarrow> P T'"
  using translated_preserves(1)[OF st] get_monitor_value_preserves[OF st]
  by (auto simp: record_value_def split: if_splits sum.splits)

lemma values_loop_preserves:
  assumes st: "stable P"
  shows "values_loop B H tfs lc ec vals i L T = Inr (L', T') \<Longrightarrow> P T \<Longrightarrow> P T'"
proof (induction "length vals - i" arbitrary: i L T rule: less_induct)
  case less
  show ?case
  proof (cases "i < length vals")
    case False
    with less.prems show ?thesis by (subst (asm) values_loop.simps) simp
  next
    case True
    from less.prems(1) True obtain s L1 T1 where
      r: "record_value B H tfs lc ec i (vals ! i) L T = Inr (s, L1, T1)"
      by (subst (asm) values_loop.simps) (auto split: sum.splits)
    from record_value_preserves[OF st r less.prems(2)] have p1: "P T1" .
    show ?thesis
    proof (cases s)
      case None
      with less.prems(1) True r have
        "values_loop B H tfs lc ec vals (i + 1) L1 T1 = Inr (L', T')"
        by (subst (asm) values_loop.simps) simp
      from less.hyps[OF _ this p1] True show ?thesis by simp
    next
      case (Some y)
      with less.prems(1) True r have
        "values_loop B H tfs lc ec vals (i + 1 + 1) L1 T1 = Inr (L', T')"
        by (subst (asm) values_loop.simps) (auto split: sum.splits)
      from less.hyps[OF _ this p1] True show ?thesis by simp
    qed
  qed
qed

lemma record_scope_preserves:
  assumes st: "stable P"
  shows "record_scope B interp H tfs pc f (T, rc) = Inr (T', rc') \<Longrightarrow> P T \<Longrightarrow> P T'"
proof (induction "chain f" arbitrary: f T rc T' rc')
  case Nil
  then show ?case by (simp add: chain_unfold[of f])
next
  case (Cons g gs)
  from record_scope_Inr[OF Cons.prems(1)] obtain T1 rec1 L where
    c: "caller_result B interp H tfs pc (f_caller f) (T, rc) = Inr (T1, rec1)"
    and v: "values_loop B H tfs (numLocals f) (numStack f) (f_values f) 0
             \<lparr>locals = [], expressions = [], monitors = []\<rparr> T1 = Inr (L, T')"
    by auto
  have "P T1"
  proof (cases "f_caller f")
    case None
    with c Cons.prems(2) show ?thesis by (simp add: caller_result_def)
  next
    case (Some cf)
    with c have rs: "record_scope B interp H tfs pc cf (T, rc) = Inr (T1, rec1)"
      by (simp add: caller_result_def)
    have "gs = chain cf" using Cons.hyps(2) Some by (simp add: chain_unfold[of f])
    from Cons.hyps(1)[OF this rs Cons.prems(2)] show ?thesis .
  qed
  from values_loop_preserves[OF st v this] show ?case .
qed

text \<open>
  Claim C3, as the code has it. Value translation terminates on every input, also on a
  virtual object that is (directly or through others) one of its own field values: the
  recursion is well founded, because the new object value is in \<^verbatim>\<open>objects\<close> before
  the fields are translated. The translation of a virtual object returns a pointer to an
  object value and no second slot; in every later state of the same list \<^verbatim>\<open>objects\<close>
  the translation of a virtual object with the same id returns that same pointer and
  changes nothing. A scope-recording pass only extends the list and keeps at most one object
  value for an id in it.
\<close>

theorem virtual_object_memo:
  "get_hotspot_value_field_loop_dom (Inl (B, H, tfs, T, v)) \<and>
   (get_hotspot_value B H tfs T (VirtualObject k h) = Inr (x, s, T') \<longrightarrow>
      s = None \<and> (\<exists>a. x = ObjectValue_at a) \<and> grows T T' \<and> (unique_ids T \<longrightarrow> unique_ids T') \<and>
      (\<forall>T'' k' h'. grows T' T'' \<longrightarrow> h' < length H \<longrightarrow> vo_id (H ! h') = vo_id (H ! h) \<longrightarrow>
          get_hotspot_value B H tfs T'' (VirtualObject k' h') = Inr (x, None, T''))) \<and>
   (record_scope B interp H tfs pc f (T, rc) = Inr (U, rc') \<longrightarrow>
      grows T U \<and> (unique_ids T \<longrightarrow> unique_ids U))"
proof (intro conjI impI allI)
  show "get_hotspot_value_field_loop_dom (Inl (B, H, tfs, T, v))"
    using get_hotspot_value_total by blast
next
  assume a: "get_hotspot_value B H tfs T (VirtualObject k h) = Inr (x, s, T')"
  from virtual_object_translated[OF a] obtain p where
    h: "h < length H" and s: "s = None" and x: "x = ObjectValue_at p"
    and l: "lookup_id (vo_id (H ! h)) T' = Some p"
    by blast
  show "s = None" by (rule s)
  show "\<exists>a. x = ObjectValue_at a" using x by blast
  show "grows T T'" using a by (rule translated_grows)
  show "unique_ids T'" if "unique_ids T" using a that by (rule translated_unique_ids)
  show "get_hotspot_value B H tfs T'' (VirtualObject k' h') = Inr (x, None, T'')"
    if "grows T' T''" "h' < length H" "vo_id (H ! h') = vo_id (H ! h)" for T'' k' h'
  proof -
    from lookup_id_grows[OF that(1) l] that(3) have "lookup_id (vo_id (H ! h')) T'' = Some p"
      by simp
    from virtual_object_again[OF this that(2)] x show ?thesis by simp
  qed
next
  assume r: "record_scope B interp H tfs pc f (T, rc) = Inr (U, rc')"
  show "grows T U"
    using record_scope_preserves[OF stable_grows r, of T] by simp
  show "unique_ids U" if "unique_ids T"
    by (rule record_scope_preserves[OF stable_unique_ids r that])
qed

lemma self_first:
  "get_hotspot_value B self_heap tfs (fresh_translation n) (VirtualObject Kind_Object 0) =
     Inr (ObjectValue_at n, None, self_translation n)"
  by (simp add: get_hotspot_value.simps field_loop.simps self_heap_def fresh_translation_def
        find_object_def new_ObjectValue_def Let_def pad_long_array_def append_field_values_def
        append_field_def self_translation_def self_object_at_def)

lemma self_again:
  "get_hotspot_value B self_heap tfs (self_translation n) (VirtualObject Kind_Object 0) =
     Inr (ObjectValue_at n, None, self_translation n)"
  by (simp add: get_hotspot_value.simps self_heap_def self_translation_def find_object_def
        self_object_at_def)

lemma values_loop_frame_V:
  "values_loop B self_heap tfs 1 0 [VirtualObject Kind_Object 0] 0 no_scope_values
       (fresh_translation n) =
     Inr (\<lparr>locals = [ObjectValue_at n], expressions = [], monitors = []\<rparr>, self_translation n)"
proof -
  have "values_loop B self_heap tfs 1 0 [VirtualObject Kind_Object 0] 0 no_scope_values
          (fresh_translation n) =
        values_loop B self_heap tfs 1 0 [VirtualObject Kind_Object 0] (0 + 1)
          \<lparr>locals = [ObjectValue_at n], expressions = [], monitors = []\<rparr> (self_translation n)"
    by (rule values_loop_narrow) (simp_all add: record_value_def self_first no_scope_values_def)
  also have "\<dots> = Inr (\<lparr>locals = [ObjectValue_at n], expressions = [], monitors = []\<rparr>,
                       self_translation n)"
    by (rule values_loop_done) simp
  finally show ?thesis .
qed

lemma record_scope_frame_V:
  "record_scope debug_build interp self_heap tfs pc frame_V (fresh_translation n, rc) =
     Inr (self_translation n,
          rc @ [dump_object_pool [(n, self_object_at n)], describe_scope (scope_V pc n)])"
  unfolding frame_V_def record_scope.simps
  by (simp add: vm_assert_def values_loop_frame_V[unfolded no_scope_values_def]
        reexecute_flag_Some scope_V_def scope_desc_of_def frame_reexecute_def frame_V_def
        self_translation_def)

lemma site_Safepoint_V:
  "heap_top st = n \<Longrightarrow> metadata st = [] \<Longrightarrow> total_frame_size st = 24 \<Longrightarrow> parameter_count st = 0 \<Longrightarrow>
   site_Safepoint debug_build interp self_heap st pc (Some debug_info_V) =
     Inr (st\<lparr>debug_recorder := debug_recorder st @
               [add_safepoint pc (- 1) (new_OopMap 24 0), dump_object_pool [(n, self_object_at n)],
                describe_scope (scope_V pc n), end_safepoint pc],
             heap_top := n + 1\<rparr>)"
  by (simp add: site_Safepoint_def vm_assert_def safepoint_with_scopes_def debug_info_V_def
        create_oop_map_no_maps record_scope_at_def
        record_scope_frame_V[unfolded fresh_translation_def] recorder_add_def
        self_translation_def)

theorem virtual_object_memo_witness:
  "get_hotspot_value debug_build self_heap 24 (fresh_translation 0) (VirtualObject Kind_Object 0) =
     Inr (ObjectValue_at 0, None, self_translation 0) \<and>
   record_scope debug_build (\<lambda>m b. True) self_heap 24 0 frame_V (fresh_translation 0, []) =
     Inr (self_translation 0,
          [dump_object_pool [(0, self_object_at 0)], describe_scope (scope_V 0 0)]) \<and>
   grows (self_translation 0) (self_translation 0) \<and> 0 < length self_heap \<and>
   unique_ids (fresh_translation 0) \<and> unique_ids (self_translation 0) \<and>
   get_hotspot_value debug_build self_heap 24 (self_translation 0) (VirtualObject Kind_Object 0) =
     Inr (ObjectValue_at 0, None, self_translation 0) \<and>
   get_hotspot_value_field_loop_dom
     (Inl (debug_build, self_heap, 24, fresh_translation 0, VirtualObject Kind_Object 0))"
proof -
  note m = virtual_object_memo[of debug_build self_heap 24 "fresh_translation 0"
             "VirtualObject Kind_Object 0" Kind_Object 0 "ObjectValue_at 0" None "self_translation 0"
             "\<lambda>m b. True" 0 frame_V "[]" "self_translation 0"
             "[dump_object_pool [(0, self_object_at 0)], describe_scope (scope_V 0 0)]"]
  have u: "unique_ids (fresh_translation 0)"
    by (simp add: unique_ids_def skeleton_def fresh_translation_def)
  have l: "0 < length self_heap" by (simp add: self_heap_def)
  have r: "record_scope debug_build (\<lambda>m b. True) self_heap 24 0 frame_V (fresh_translation 0, []) =
     Inr (self_translation 0,
          [dump_object_pool [(0, self_object_at 0)], describe_scope (scope_V 0 0)])"
    by (simp add: record_scope_frame_V)
  from m self_first[of debug_build 24 0] u l have
    "unique_ids (self_translation 0)"
    "get_hotspot_value debug_build self_heap 24 (self_translation 0) (VirtualObject Kind_Object 0) =
       Inr (ObjectValue_at 0, None, self_translation 0)"
    by (simp_all add: grows_refl)
  with m self_first[of debug_build 24 0] u l r show ?thesis by simp
qed

text \<open>
  The list \<^verbatim>\<open>objects\<close> is new at every site (lines 542 and 599), so within one
  installation two safepoints that mention the virtual object with id 7 get two object
  values for it.
\<close>

theorem virtual_object_per_site_counterexample:
  "initialize_buffer debug_build example_view (\<lambda>m b. True) self_heap
     (example_result [Safepoint 0 (Some debug_info_V), Safepoint 8 (Some debug_info_V)])
     example_buffer =
   Inr (example_state\<lparr>debug_recorder := two_safepoints, heap_top := 2\<rparr>) \<and>
   map sd_locals (described two_safepoints) = [[ObjectValue_at 0], [ObjectValue_at 1]] \<and>
   ObjectValue_at 0 \<noteq> ObjectValue_at 1"
proof -
  have e: "initialize_fields debug_build
             (example_result [Safepoint 0 (Some debug_info_V), Safepoint 8 (Some debug_info_V)])
             example_buffer = example_state"
    by (simp add: example_state_def initialize_fields_def example_result_def)
  have f: "total_frame_size example_state = 24" "parameter_count example_state = 0"
     "debug_recorder example_state = []" "heap_top example_state = 0" "metadata example_state = []"
    by (simp_all add: example_state_def initialize_fields_def example_result_def debug_build_def
          product_build_def)
  have s1: "site_Safepoint debug_build (\<lambda>m b. True) self_heap example_state 0 (Some debug_info_V) =
     Inr (example_state\<lparr>debug_recorder := take 4 two_safepoints, heap_top := Suc 0\<rparr>)"
    using site_Safepoint_V[of example_state 0 "\<lambda>m b. True" 0] f
    by (simp add: two_safepoints_def)
  have s2: "site_Safepoint debug_build (\<lambda>m b. True) self_heap
              (example_state\<lparr>debug_recorder := take 4 two_safepoints, heap_top := Suc 0\<rparr>) 8
              (Some debug_info_V) =
     Inr (example_state\<lparr>debug_recorder := two_safepoints, heap_top := 2\<rparr>)"
    using site_Safepoint_V[of "example_state\<lparr>debug_recorder := take 4 two_safepoints, heap_top := Suc 0\<rparr>"
            "Suc 0" "\<lambda>m b. True" 8] f
    by (simp add: two_safepoints_def)
  have "initialize_buffer debug_build example_view (\<lambda>m b. True) self_heap
     (example_result [Safepoint 0 (Some debug_info_V), Safepoint 8 (Some debug_info_V)])
     example_buffer = Inr (example_state\<lparr>debug_recorder := two_safepoints, heap_top := 2\<rparr>)"
    unfolding initialize_buffer_def e
    by (simp add: example_result_def dispatch_site_def s1 s2)
  then show ?thesis
    by (simp add: two_safepoints_def scope_V_def scope_desc_of_def)
qed

subsection \<open>Recorded stack slots\<close>

text \<open>
  The loop over the values of a frame reaches every index that holds no placeholder, when
  the placeholders follow the wide values, and what it has put on a list stays there.
\<close>

lemma placeholders_ok_nth:
  "placeholders_ok vals \<Longrightarrow> j < length vals \<Longrightarrow> two_slots (vals ! j) \<Longrightarrow>
     Suc j < length vals \<and> vals ! Suc j = ILLEGAL"
proof (induction vals arbitrary: j)
  case Nil
  then show ?case by simp
next
  case (Cons v vs)
  show ?case
  proof (cases j)
    case 0
    with Cons.prems show ?thesis by (cases vs) auto
  next
    case (Suc m)
    with Cons show ?thesis by auto
  qed
qed

lemma lists_grow_refl [simp]: "lists_grow L L"
  by (simp add: lists_grow_def)

lemma lists_grow_trans: "lists_grow L L1 \<Longrightarrow> lists_grow L1 L2 \<Longrightarrow> lists_grow L L2"
  by (auto simp: lists_grow_def)

lemma record_value_grow:
  "record_value B H tfs lc ec i v L T = Inr (s, L1, T1) \<Longrightarrow> lists_grow L L1"
  by (auto simp: record_value_def lists_grow_def split: if_splits sum.splits)

lemma record_value_second:
  "record_value B H tfs lc ec i v L T = Inr (Some s, L1, T1) \<Longrightarrow> two_slots v"
  using second_slot_iff[of B H tfs T v]
  by (auto simp: record_value_def split: if_splits sum.splits)

lemma values_loop_step:
  assumes "values_loop B H tfs lc ec vals i L T = Inr (L', T')" and "i < length vals"
  shows "\<exists>s L1 T1. record_value B H tfs lc ec i (vals ! i) L T = Inr (s, L1, T1) \<and>
           values_loop B H tfs lc ec vals (if s = None then i + 1 else i + 2) L1 T1 = Inr (L', T')"
proof -
  from assms obtain s L1 T1 where
    r: "record_value B H tfs lc ec i (vals ! i) L T = Inr (s, L1, T1)"
    by (subst (asm) values_loop.simps) (auto split: sum.splits)
  show ?thesis
  proof (cases s)
    case None
    with assms r have "values_loop B H tfs lc ec vals (i + 1) L1 T1 = Inr (L', T')"
      by (subst (asm) values_loop.simps) simp
    with r None show ?thesis by simp
  next
    case (Some y)
    with assms r have "values_loop B H tfs lc ec vals (i + 1 + 1) L1 T1 = Inr (L', T')"
      by (subst (asm) values_loop.simps) (auto split: sum.splits)
    with r Some show ?thesis by simp
  qed
qed

lemma values_loop_grow:
  "values_loop B H tfs lc ec vals i L T = Inr (L', T') \<Longrightarrow> lists_grow L L'"
proof (induction "length vals - i" arbitrary: i L T rule: less_induct)
  case less
  show ?case
  proof (cases "i < length vals")
    case False
    with less.prems show ?thesis by (subst (asm) values_loop.simps) simp
  next
    case True
    from values_loop_step[OF less.prems True] obtain s L1 T1 where
      r: "record_value B H tfs lc ec i (vals ! i) L T = Inr (s, L1, T1)" and
      v: "values_loop B H tfs lc ec vals (if s = None then i + 1 else i + 2) L1 T1 = Inr (L', T')"
      by blast
    have "length vals - (if s = None then i + 1 else i + 2) < length vals - i"
      using True by auto
    from less.hyps[OF this v] have "lists_grow L1 L'" .
    with record_value_grow[OF r] show ?thesis by (rule lists_grow_trans)
  qed
qed

lemma values_loop_processed:
  assumes ph: "placeholders_ok vals"
  shows "values_loop B H tfs lc ec vals i L T = Inr (L', T') \<Longrightarrow> i \<le> j \<Longrightarrow> j < length vals \<Longrightarrow>
         vals ! j \<noteq> ILLEGAL \<Longrightarrow>
         \<exists>L0 T0 s L1 T1. record_value B H tfs lc ec j (vals ! j) L0 T0 = Inr (s, L1, T1) \<and>
                          lists_grow L1 L'"
proof (induction "length vals - i" arbitrary: i L T rule: less_induct)
  case less
  from less.prems have il: "i < length vals" by simp
  from values_loop_step[OF less.prems(1) il] obtain s L1 T1 where
    r: "record_value B H tfs lc ec i (vals ! i) L T = Inr (s, L1, T1)" and
    v: "values_loop B H tfs lc ec vals (if s = None then i + 1 else i + 2) L1 T1 = Inr (L', T')"
    by blast
  show ?case
  proof (cases "i = j")
    case True
    from values_loop_grow[OF v] r True show ?thesis by blast
  next
    case False
    with less.prems have lt: "i < j" by simp
    have "(if s = None then i + 1 else i + 2) \<le> j"
    proof (cases s)
      case None
      with lt show ?thesis by simp
    next
      case (Some y)
      with r have "two_slots (vals ! i)" by (auto dest: record_value_second)
      from placeholders_ok_nth[OF ph il this] have "vals ! Suc i = ILLEGAL" by simp
      with less.prems(4) have "j \<noteq> Suc i" by auto
      with lt Some show ?thesis by simp
    qed
    moreover have "length vals - (if s = None then i + 1 else i + 2) < length vals - i"
      using il by auto
    ultimately show ?thesis
      using less.hyps[OF _ v _ less.prems(3,4)] by blast
  qed
qed

lemma record_value_stack_slot:
  assumes "record_value B H tfs lc ec j (StackSlot k off True) L0 T0 = Inr (s, L1, T1)"
  shows "\<exists>t. LocationValue (new_stk_loc t (off + tfs)) \<in>
              set (if int j < sint lc then locals L1 else expressions L1)"
  using assms
  by (auto simp: record_value_def get_hotspot_value.simps stack_slot_value_def Let_def
           split: if_splits sum.splits)

lemma record_value_monitor:
  assumes "record_value B H tfs lc ec j (code_MonitorValue km owner (StackSlot k off True) e) L0 T0 =
             Inr (s, L1, T1)"
  shows "\<exists>ov t el. MonitorValue ov (new_stk_loc t (off + tfs)) el \<in> set (monitors L1)"
  using assms
  by (auto simp: record_value_def get_hotspot_value.simps stack_slot_value_def Let_def
           split: if_splits sum.splits prod.splits scope_value.splits)
     blast+

lemma record_value_monitor_owner:
  assumes "record_value B H tfs lc ec j (code_MonitorValue km (StackSlot k off True) lockData e) L0 T0 =
             Inr (s, L1, T1)"
  shows "\<exists>t l el. MonitorValue (LocationValue (new_stk_loc t (off + tfs))) l el \<in> set (monitors L1)"
  using assms
  by (auto simp: record_value_def get_hotspot_value.simps stack_slot_value_def Let_def
           split: if_splits sum.splits prod.splits scope_value.splits)
     blast+

lemma scope_desc_of_lists [simp]:
  "sd_locals (scope_desc_of pc f L) = locals L"
  "sd_expressions (scope_desc_of pc f L) = expressions L"
  "sd_monitors (scope_desc_of pc f L) = monitors L"
  by (simp_all add: scope_desc_of_def)

lemma values_loop_slots:
  assumes v: "values_loop B H tfs (numLocals g) (numStack g) (f_values g) 0 L0 T = Inr (L, T')"
    and ph: "placeholders_ok (f_values g)"
  shows "slots_recorded tfs g (scope_desc_of pc g L)"
  unfolding slots_recorded_def
proof (intro allI impI conjI)
  fix j k off
  assume j: "j < length (f_values g)" and s: "f_values g ! j = StackSlot k off True"
  from values_loop_processed[OF ph v _ j] s obtain L1 T1 sec L2 T2 where
    r: "record_value B H tfs (numLocals g) (numStack g) j (StackSlot k off True) L1 T1 =
          Inr (sec, L2, T2)" and gr: "lists_grow L2 L"
    by auto
  from record_value_stack_slot[OF r] gr
  show "\<exists>t. LocationValue (new_stk_loc t (off + tfs)) \<in>
              set (if int j < sint (numLocals g) then sd_locals (scope_desc_of pc g L)
                   else sd_expressions (scope_desc_of pc g L))"
    by (simp add: lists_grow_def split: if_splits) blast+
next
  fix j k off km owner e
  assume j: "j < length (f_values g)"
    and s: "f_values g ! j = code_MonitorValue km owner (StackSlot k off True) e"
  from values_loop_processed[OF ph v _ j] s obtain L1 T1 sec L2 T2 where
    r: "record_value B H tfs (numLocals g) (numStack g) j
          (code_MonitorValue km owner (StackSlot k off True) e) L1 T1 = Inr (sec, L2, T2)"
    and gr: "lists_grow L2 L"
    by auto
  from record_value_monitor[OF r] gr
  show "\<exists>ov t el. MonitorValue ov (new_stk_loc t (off + tfs)) el \<in>
              set (sd_monitors (scope_desc_of pc g L))"
    by (simp add: lists_grow_def) blast
next
  fix j k off km lockData e
  assume j: "j < length (f_values g)"
    and s: "f_values g ! j = code_MonitorValue km (StackSlot k off True) lockData e"
  from values_loop_processed[OF ph v _ j] s obtain L1 T1 sec L2 T2 where
    r: "record_value B H tfs (numLocals g) (numStack g) j
          (code_MonitorValue km (StackSlot k off True) lockData e) L1 T1 = Inr (sec, L2, T2)"
    and gr: "lists_grow L2 L"
    by auto
  from record_value_monitor_owner[OF r] gr
  show "\<exists>t l el. MonitorValue (LocationValue (new_stk_loc t (off + tfs))) l el \<in>
              set (sd_monitors (scope_desc_of pc g L))"
    by (simp add: lists_grow_def) blast
qed

lemma record_scope_slots:
  "record_scope B interp H tfs pc f (T, rec) = Inr (T', rec') \<Longrightarrow>
   \<exists>ds. described rec' = described rec @ ds \<and>
        list_all2 (\<lambda>d g. scope_of_frame d pc g \<and>
                         (placeholders_ok (f_values g) \<longrightarrow> slots_recorded tfs g d))
          ds (rev (chain f))"
proof (induction "chain f" arbitrary: f T rec T' rec')
  case Nil
  then show ?case by (simp add: chain_unfold[of f])
next
  case (Cons g gs)
  let ?P = "\<lambda>d g. scope_of_frame d pc g \<and>
                   (placeholders_ok (f_values g) \<longrightarrow> slots_recorded tfs g d)"
  from record_scope_Inr[OF Cons.prems] obtain T1 rec1 L where
    c: "caller_result B interp H tfs pc (f_caller f) (T, rec) = Inr (T1, rec1)"
    and v: "values_loop B H tfs (numLocals f) (numStack f) (f_values f) 0
             \<lparr>locals = [], expressions = [], monitors = []\<rparr> T1 = Inr (L, T')"
    and r: "rec' = rec1 @ [dump_object_pool (objects T'), describe_scope (scope_desc_of pc f L)]"
    by auto
  have "\<exists>ds. described rec1 = described rec @ ds \<and>
             list_all2 ?P ds (rev (case f_caller f of None \<Rightarrow> [] | Some c \<Rightarrow> chain c))"
  proof (cases "f_caller f")
    case None
    with c show ?thesis by (simp add: caller_result_def)
  next
    case (Some cf)
    with c have rs: "record_scope B interp H tfs pc cf (T, rec) = Inr (T1, rec1)"
      by (simp add: caller_result_def)
    have "gs = chain cf" using Cons.hyps(2) Some by (simp add: chain_unfold[of f])
    from Cons.hyps(1)[OF this rs] Some show ?thesis by simp
  qed
  then obtain ds where ds: "described rec1 = described rec @ ds"
    "list_all2 ?P ds (rev (case f_caller f of None \<Rightarrow> [] | Some c \<Rightarrow> chain c))" by blast
  have "?P (scope_desc_of pc f L) f"
    using values_loop_slots[OF v] by simp
  with ds(2) have "list_all2 ?P (ds @ [scope_desc_of pc f L]) (rev (chain f))"
    by (subst chain_unfold[of f]) (auto intro!: list_all2_appendI)
  with ds(1) r show ?case by simp
qed

lemma list_all2_in_set:
  "list_all2 P xs ys \<Longrightarrow> y \<in> set ys \<Longrightarrow> \<exists>x \<in> set xs. P x y"
  by (induction rule: list_all2_induct) auto

lemma safepoint_with_scopes_slots:
  assumes "safepoint_with_scopes B interp H pc leaf di st = Inr st'"
  shows "\<exists>ds. described (debug_recorder st') = described (debug_recorder st) @ ds \<and>
           (\<forall>f g. bytecodePosition di = Some f \<longrightarrow> g \<in> set (chain f) \<longrightarrow>
              (\<exists>d \<in> set ds. scope_of_frame d pc g \<and>
                 (placeholders_ok (f_values g) \<longrightarrow> slots_recorded (total_frame_size st) g d)))"
proof -
  from assms obtain l m T rec where
    r: "record_scope_at B interp H (total_frame_size st) pc (bytecodePosition di)
             (\<lparr>objects = [], next_ObjectValue = heap_top st, oop_recorder = metadata st\<rparr>,
              debug_recorder st @ [add_safepoint pc l m]) = Inr (T, rec)"
    and s: "st' = st\<lparr>debug_recorder := rec, heap_top := next_ObjectValue T,
                  metadata := oop_recorder T\<rparr>"
    by (auto simp: safepoint_with_scopes_def split: sum.splits prod.splits)
  from r obtain f where f: "bytecodePosition di = Some f"
    and "record_scope B interp H (total_frame_size st) pc f
             (\<lparr>objects = [], next_ObjectValue = heap_top st, oop_recorder = metadata st\<rparr>,
              debug_recorder st @ [add_safepoint pc l m]) = Inr (T, rec)"
    by (auto simp: record_scope_at_def split: option.splits)
  from record_scope_slots[OF this(2)] obtain ds where
    d: "described rec = described (debug_recorder st) @ ds" and
    a: "list_all2 (\<lambda>d g. scope_of_frame d pc g \<and>
              (placeholders_ok (f_values g) \<longrightarrow> slots_recorded (total_frame_size st) g d))
          ds (rev (chain f))"
    by auto
  show ?thesis
  proof (intro exI[of _ ds] conjI allI impI)
    show "described (debug_recorder st') = described (debug_recorder st) @ ds"
      using d s by simp
  next
    fix f' g assume "bytecodePosition di = Some f'" "g \<in> set (chain f')"
    with f have "g \<in> set (rev (chain f))" by simp
    from list_all2_in_set[OF a this]
    show "\<exists>d \<in> set ds. scope_of_frame d pc g \<and>
                 (placeholders_ok (f_values g) \<longrightarrow> slots_recorded (total_frame_size st) g d)" .
  qed
qed

text \<open>The site handlers only add to the scopes described so far.\<close>

lemma debug_recorder_emit [simp]: "debug_recorder (emit ops st) = debug_recorder st"
  by (simp add: emit_def)

lemma described_recorder_add_end [simp]:
  "described (debug_recorder (recorder_add [end_safepoint pc] st)) = described (debug_recorder st)"
  by (simp add: recorder_add_def)

lemma described_finish_call [simp]:
  "described (debug_recorder (finish_call di n st)) = described (debug_recorder st)"
  by (simp add: finish_call_def Let_def recorder_add_def)

lemma debug_recorder_patch_stub_call [simp]:
  "debug_recorder (patch_stub_call C st pc s) = debug_recorder st"
  by (simp add: patch_stub_call_def Let_def split: native_instruction.splits)

lemma patch_method_call_recorder:
  "patch_method_call B st pc m d = Inr st' \<Longrightarrow> debug_recorder st' = debug_recorder st"
  using patch_method_call_fields[of B st pc m d st'] by auto

lemma scopes_recorded_mono:
  "scopes_recorded tfs di st \<Longrightarrow>
   set (described (debug_recorder st)) \<subseteq> set (described (debug_recorder st')) \<Longrightarrow>
   scopes_recorded tfs di st'"
  unfolding scopes_recorded_def by blast

lemma safepoint_with_scopes_recorded:
  assumes "safepoint_with_scopes B interp H pc leaf di st = Inr st'"
  shows "set (described (debug_recorder st)) \<subseteq> set (described (debug_recorder st')) \<and>
         scopes_recorded (total_frame_size st) di st'"
proof -
  from safepoint_with_scopes_slots[OF assms] obtain ds where
    d: "described (debug_recorder st') = described (debug_recorder st) @ ds" and
    a: "\<forall>f g. bytecodePosition di = Some f \<longrightarrow> g \<in> set (chain f) \<longrightarrow>
              (\<exists>d \<in> set ds. scope_of_frame d pc g \<and>
                 (placeholders_ok (f_values g) \<longrightarrow> slots_recorded (total_frame_size st) g d))"
    by blast
  from d have "set (described (debug_recorder st)) \<subseteq> set (described (debug_recorder st'))"
    by simp
  moreover have "scopes_recorded (total_frame_size st) di st'"
    unfolding scopes_recorded_def
  proof (intro allI impI)
    fix f g assume "bytecodePosition di = Some f" "g \<in> set (chain f)"
    with a obtain x where "x \<in> set ds" "scope_of_frame x pc g"
      "placeholders_ok (f_values g) \<longrightarrow> slots_recorded (total_frame_size st) g x"
      by blast
    with d show "\<exists>d \<in> set (described (debug_recorder st')).
           (\<exists>pc. scope_of_frame d pc g) \<and>
           (placeholders_ok (f_values g) \<longrightarrow> slots_recorded (total_frame_size st) g d)"
      by auto
  qed
  ultimately show ?thesis ..
qed

lemma site_Safepoint_recorded:
  assumes "site_Safepoint B interp H st pc dio = Inr st'"
  shows "set (described (debug_recorder st)) \<subseteq> set (described (debug_recorder st')) \<and>
         site_recorded (total_frame_size st) (Safepoint pc dio) st'"
proof -
  from assms obtain di st1 where d: "dio = Some di"
    and s: "safepoint_with_scopes B interp H pc (\<lambda>f. Inr (- 1)) di st = Inr st1"
    and e: "st' = recorder_add [end_safepoint pc] st1"
    by (auto simp: site_Safepoint_def split: sum.splits option.splits)
  from safepoint_with_scopes_recorded[OF s] have
    "set (described (debug_recorder st)) \<subseteq> set (described (debug_recorder st1))"
    "scopes_recorded (total_frame_size st) di st1" by simp_all
  then show ?thesis
    using d e by (auto simp: site_recorded_def intro: scopes_recorded_mono)
qed

lemma call_safepoint_recorded:
  assumes "call_safepoint B interp H n dio st = Inr st'"
  shows "set (described (debug_recorder st)) \<subseteq> set (described (debug_recorder st')) \<and>
         (\<forall>di. dio = Some di \<longrightarrow> scopes_recorded (total_frame_size st) di st')"
  using assms
  by (cases dio) (auto simp: call_safepoint_def dest!: safepoint_with_scopes_recorded)

lemma site_Call_recorded:
  assumes "site_Call B C interp H st pc target dio = Inr st'"
  shows "set (described (debug_recorder st)) \<subseteq> set (described (debug_recorder st')) \<and>
         site_recorded (total_frame_size st) (Call pc target dio) st'"
proof (cases target)
  case (Long_target stub)
  with assms obtain n st1 where
    c: "call_safepoint B interp H n dio st = Inr st1" and
    e: "st' = finish_call dio n (patch_stub_call C st1 pc stub)"
    by (auto simp: site_Call_def Let_def split: sum.splits)
  have "described (debug_recorder st') = described (debug_recorder st1)"
    using e by simp
  with call_safepoint_recorded[OF c] Long_target show ?thesis
    by (auto simp: site_recorded_def intro: scopes_recorded_mono)
next
  case (HotSpotInstalledCode_target entry)
  with assms show ?thesis
    by (auto simp: site_Call_def Let_def site_recorded_def split: sum.splits)
next
  case (JavaMethod_target m)
  with assms obtain n st1 st2 where
    c: "call_safepoint B interp H n dio st = Inr st1" and
    p: "patch_method_call B st1 pc m (dio \<noteq> None) = Inr st2" and
    e: "st' = finish_call dio n st2"
    by (auto simp: site_Call_def Let_def split: sum.splits)
  have "described (debug_recorder st') = described (debug_recorder st1)"
    using e patch_method_call_recorder[OF p] by simp
  with call_safepoint_recorded[OF c] JavaMethod_target show ?thesis
    by (auto simp: site_recorded_def intro: scopes_recorded_mono)
qed

lemma patch_out_of_line_recorder:
  "patch_out_of_line B C st inst prim a = Inr st' \<Longrightarrow> debug_recorder st' = debug_recorder st"
  by (auto simp: patch_out_of_line_def Let_def emit_def split: sum.splits if_splits)

lemma site_DataPatch_recorder:
  "site_DataPatch B C st pc k prim obj a inl = Inr st' \<Longrightarrow> debug_recorder st' = debug_recorder st"
  by (auto simp: site_DataPatch_def Let_def emit_def
           split: sum.splits if_splits dest!: patch_out_of_line_recorder)

lemma mark_patching_recorder:
  "mark_patching B C af inst refs st = Inr st' \<Longrightarrow> debug_recorder st' = debug_recorder st"
  by (auto simp: mark_patching_def Let_def split: sum.splits if_splits list.splits)

lemma site_Mark_recorder:
  "site_Mark B C st pc id_obj refs = Inr st' \<Longrightarrow> debug_recorder st' = debug_recorder st"
  by (cases id_obj; cases "the id_obj")
     (auto simp: site_Mark_def Let_def mark_inline_cache_def set_next_call_type_def mark_poll_def
                 emit_def
           split: sum.splits list.splits dest!: mark_patching_recorder)

lemma dispatch_site_recorded:
  assumes "dispatch_site B C interp H st s = Inr st'"
  shows "set (described (debug_recorder st)) \<subseteq> set (described (debug_recorder st')) \<and>
         site_recorded (total_frame_size st) s st'"
proof (cases s)
  case (Call pc target dio)
  with assms site_Call_recorded[of B C interp H st pc target dio st'] show ?thesis
    by (simp add: dispatch_site_def)
next
  case (Safepoint pc dio)
  with assms site_Safepoint_recorded[of B interp H st pc dio st'] show ?thesis
    by (simp add: dispatch_site_def)
next
  case (DataPatch pc k prim obj a inl)
  with assms site_DataPatch_recorder[of B C st pc k prim obj a inl st'] show ?thesis
    by (simp add: dispatch_site_def site_recorded_def)
next
  case (Mark pc id_obj refs)
  with assms site_Mark_recorder[of B C st pc id_obj refs st'] show ?thesis
    by (simp add: dispatch_site_def site_recorded_def)
next
  case (Other_site pc)
  with assms show ?thesis by (simp add: dispatch_site_def)
qed

lemma site_recorded_mono:
  "site_recorded tfs s st \<Longrightarrow>
   set (described (debug_recorder st)) \<subseteq> set (described (debug_recorder st')) \<Longrightarrow>
   site_recorded tfs s st'"
  unfolding site_recorded_def by (blast intro: scopes_recorded_mono)

lemma sites_loop_recorded:
  "sites_loop B C interp H ss st = Inr st' \<Longrightarrow> frame_size_ok st \<Longrightarrow>
     set (described (debug_recorder st)) \<subseteq> set (described (debug_recorder st')) \<and>
     (\<forall>s \<in> set ss. site_recorded (total_frame_size st) s st')"
proof (induction ss arbitrary: st)
  case Nil
  then show ?case by simp
next
  case (Cons s ss)
  from Cons.prems(1) obtain st1 where
    d: "dispatch_site B C interp H st s = Inr st1" and l: "sites_loop B C interp H ss st1 = Inr st'"
    by (auto split: sum.splits)
  from dispatch_site_ok[OF d Cons.prems(2)] have
    t: "total_frame_size st1 = total_frame_size st" and ok: "frame_size_ok st1" by simp_all
  from Cons.IH[OF l ok] t have
    m: "set (described (debug_recorder st1)) \<subseteq> set (described (debug_recorder st'))" and
    r: "\<forall>s \<in> set ss. site_recorded (total_frame_size st) s st'" by simp_all
  from dispatch_site_recorded[OF d] have
    m1: "set (described (debug_recorder st)) \<subseteq> set (described (debug_recorder st1))" and
    r1: "site_recorded (total_frame_size st) s st1" by simp_all
  from site_recorded_mono[OF r1 m] m m1 r show ?case by auto
qed

text \<open>
  A field value, once appended to the object value with pointer \<open>a\<close>, stays among its
  field values through the rest of the translation.
\<close>

lemma has_object_append_field [simp]: "has_object a (append_field b x T) = has_object a T"
  by (force simp: has_object_def append_field_def image_iff split: if_splits)

lemma field_recorded_append_field:
  assumes "field_recorded a x T"
  shows "field_recorded a x (append_field b y T)"
proof -
  let ?F = "\<lambda>(c, obj). if c = b then (c, obj\<lparr>ov_field_values := ov_field_values obj @ [y]\<rparr>)
                        else (c, obj)"
  from assms obtain obj where o: "(a, obj) \<in> set (objects T)" "x \<in> set (ov_field_values obj)"
    by (auto simp: field_recorded_def)
  from o(1) have "?F (a, obj) \<in> set (objects (append_field b y T))"
    unfolding objects_append_field set_map by (rule imageI)
  with o(2) show ?thesis
    by (cases "a = b") (auto simp: field_recorded_def)
qed

lemma field_recorded_new:
  "has_object a T \<Longrightarrow> field_recorded a x (append_field a x T)"
  by (force simp: field_recorded_def has_object_def append_field_def image_iff)

lemma stable_has_object: "stable (has_object a)"
  by (auto simp: stable_def has_object_def append_field_values_def new_ObjectValue_def Let_def
           split: option.splits)
     (force simp: append_field_def image_iff split: if_splits)+

lemma stable_field_recorded: "stable (field_recorded a x)"
  unfolding stable_def
proof (intro conjI allI impI)
  fix T r assume "field_recorded a x T"
  then show "field_recorded a x (T\<lparr>oop_recorder := r\<rparr>)" by (simp add: field_recorded_def)
next
  fix T b v s assume "field_recorded a x T"
  then show "field_recorded a x (append_field_values b v s T)"
    by (auto simp: append_field_values_def intro: field_recorded_append_field split: option.splits)
next
  fix T vo assume "field_recorded a x T"
  then show "field_recorded a x (snd (new_ObjectValue vo T))"
    by (auto simp: field_recorded_def new_ObjectValue_def Let_def)
qed

lemma append_field_values_recorded:
  assumes "has_object a T" and "x = v \<or> s = Some x"
  shows "field_recorded a x (append_field_values a v s T)"
  using assms
  by (auto simp: append_field_values_def intro: field_recorded_new field_recorded_append_field
           split: option.splits)

lemma pad_long_array_keeps:
  "pad_long_array B la v cs = (v', cs') \<Longrightarrow> v = v' \<or> cs' = Some v"
  by (auto simp: pad_long_array_def split: if_splits)

lemma field_loop_slot:
  "field_loop B H tfs la a T fs = Inr T' \<Longrightarrow> has_object a T \<Longrightarrow> p < length fs \<Longrightarrow>
   fs ! p = StackSlot k off True \<Longrightarrow>
   \<exists>t. field_recorded a (LocationValue (new_stk_loc t (off + tfs))) T'"
proof (induction fs arbitrary: T p)
  case Nil
  then show ?case by simp
next
  case (Cons f fs)
  note eq = field_loop.simps(2)[of B H tfs la a T f fs]
  from eq Cons.prems(1) obtain v cs T1 where
    g: "get_hotspot_value B H tfs T f = Inr (v, cs, T1)"
    by (cases "get_hotspot_value B H tfs T f") auto
  obtain v' cs' where pd: "pad_long_array B la v cs = (v', cs')"
    by (cases "pad_long_array B la v cs")
  from eq Cons.prems(1) g pd have
    r: "field_loop B H tfs la a (append_field_values a v' cs' T1) fs = Inr T'"
    by simp
  from translated_preserves(1)[OF stable_has_object g Cons.prems(2)] have h1: "has_object a T1" .
  then have h2: "has_object a (append_field_values a v' cs' T1)"
    by (rule stableD(2)[OF stable_has_object])
  show ?case
  proof (cases p)
    case 0
    with Cons.prems(4) g obtain t where v: "v = LocationValue (new_stk_loc t (off + tfs))"
      by (auto simp: get_hotspot_value.simps stack_slot_value_def Let_def)
    from pad_long_array_keeps[OF pd] have "v = v' \<or> cs' = Some v" .
    with append_field_values_recorded[OF h1, of v v' cs'] have
      "field_recorded a v (append_field_values a v' cs' T1)" by auto
    from translated_preserves(2)[OF stable_field_recorded r this] v show ?thesis by blast
  next
    case (Suc q)
    with Cons.prems(3,4) have "q < length fs" "fs ! q = StackSlot k off True" by simp_all
    from Cons.IH[OF r h2 this] show ?thesis .
  qed
qed

lemma virtual_object_slot:
  assumes "get_hotspot_value B H tfs T (VirtualObject kv h) = Inr (x, sec, T')"
    and "h < length H" and "find_object (vo_id (H ! h)) T = None"
    and "p < length (vo_values (H ! h))" and "vo_values (H ! h) ! p = StackSlot k off True"
  shows "\<exists>a obj t. x = ObjectValue_at a \<and> (a, obj) \<in> set (objects T') \<and>
           LocationValue (new_stk_loc t (off + tfs)) \<in> set (ov_field_values obj)"
proof -
  let ?a = "fst (new_ObjectValue (H ! h) T)"
  let ?T1 = "snd (new_ObjectValue (H ! h) T)"
  from assms(1,2,3) have
    f: "field_loop B H tfs (vo_klass (H ! h) = longArrayKlassObj) ?a ?T1 (vo_values (H ! h)) = Inr T'"
    and x: "x = ObjectValue_at ?a"
    by (auto simp: get_hotspot_value.simps split: sum.splits)
  have "has_object ?a ?T1"
    by (simp add: has_object_def new_ObjectValue_def Let_def)
  from field_loop_slot[OF f this assms(4,5)] x show ?thesis
    by (auto simp: field_recorded_def)
qed

text \<open>
  Claim C9. After the sites of a compilation result have been dispatched, the frame size
  of the installer is still the declared frame size plus one word, and every oop map added
  with a safepoint was created with that size. With that frame size a stack slot with the
  \<^verbatim>\<open>addFrameSize\<close> flag is translated to the location at the slot offset plus the
  declared frame size plus one word, and that location is what the installer records.
  For every frame of the debug info of a safepoint or call site, in a value list in which
  the placeholders follow the wide values, the scope described for the frame has it among
  its locals or its expressions, where the slot stands, and as the lock or the owner of a
  monitor, where the slot is the lock or the owner. And a virtual object that is
  translated anew has it among the field values of its object value, where the slot is a
  field.
\<close>

theorem frame_size_with_return_address:
  assumes "initialize_buffer B C interp H comp_result buffer = Inr st"
  shows "total_frame_size st = frameSize comp_result + HeapWordSize B \<and>
         list_all (\<lambda>m. om_frame_size m = frameSize comp_result + HeapWordSize B)
           (safepoint_maps (debug_recorder st)) \<and>
         (\<exists>t second. get_hotspot_value B H (total_frame_size st) T (StackSlot k off True) =
            Inr (LocationValue
                   (new_stk_loc t (off + (frameSize comp_result + HeapWordSize B))),
                 second, T)) \<and>
         (s \<in> set (sites comp_result) \<and> site_debug_info s = Some di \<and>
          bytecodePosition di = Some f \<and> g \<in> set (chain f) \<and> placeholders_ok (f_values g) \<and>
          j < length (f_values g) \<longrightarrow>
            (\<exists>d \<in> set (described (debug_recorder st)).
               (\<exists>pc. scope_of_frame d pc g) \<and>
               (f_values g ! j = StackSlot k off True \<longrightarrow>
                  (\<exists>t. LocationValue
                         (new_stk_loc t (off + (frameSize comp_result + HeapWordSize B))) \<in>
                       set (if int j < sint (numLocals g) then sd_locals d
                            else sd_expressions d))) \<and>
               (f_values g ! j = code_MonitorValue km owner (StackSlot k off True) e \<longrightarrow>
                  (\<exists>ov t el. MonitorValue ov
                         (new_stk_loc t (off + (frameSize comp_result + HeapWordSize B))) el \<in>
                       set (sd_monitors d))) \<and>
               (f_values g ! j = code_MonitorValue km (StackSlot k off True) lockData e \<longrightarrow>
                  (\<exists>t l el. MonitorValue
                         (LocationValue
                            (new_stk_loc t (off + (frameSize comp_result + HeapWordSize B)))) l el \<in>
                       set (sd_monitors d))))) \<and>
         (get_hotspot_value B H (total_frame_size st) T (VirtualObject kv h) = Inr (x, sec, T') \<and>
          h < length H \<and> find_object (vo_id (H ! h)) T = None \<and>
          p < length (vo_values (H ! h)) \<and> vo_values (H ! h) ! p = StackSlot k off True \<longrightarrow>
            (\<exists>a obj t. x = ObjectValue_at a \<and> (a, obj) \<in> set (objects T') \<and>
               LocationValue (new_stk_loc t (off + (frameSize comp_result + HeapWordSize B))) \<in>
                 set (ov_field_values obj)))"
proof -
  let ?tfs = "frameSize comp_result + HeapWordSize B"
  let ?st0 = "initialize_fields B comp_result buffer"
  have i: "total_frame_size ?st0 = ?tfs" "frame_size_ok ?st0"
    by (simp_all add: initialize_fields_def frame_size_ok_def)
  from assms have run: "sites_loop B C interp H (sites comp_result) ?st0 = Inr st"
    by (simp add: initialize_buffer_def)
  from sites_loop_ok[OF run i(2)] i(1)
  have t: "total_frame_size st = ?tfs" and "frame_size_ok st"
    by simp_all
  then have m: "list_all (\<lambda>m. om_frame_size m = ?tfs) (safepoint_maps (debug_recorder st))"
    by (simp add: frame_size_ok_def)
  have tr: "\<exists>t second. get_hotspot_value B H (total_frame_size st) T (StackSlot k off True) =
            Inr (LocationValue (new_stk_loc t (off + ?tfs)), second, T)"
    by (simp add: get_hotspot_value.simps stack_slot_value_def Let_def t)
  have rc: "s \<in> set (sites comp_result) \<and> site_debug_info s = Some di \<and>
          bytecodePosition di = Some f \<and> g \<in> set (chain f) \<and> placeholders_ok (f_values g) \<and>
          j < length (f_values g) \<longrightarrow>
            (\<exists>d \<in> set (described (debug_recorder st)).
               (\<exists>pc. scope_of_frame d pc g) \<and>
               (f_values g ! j = StackSlot k off True \<longrightarrow>
                  (\<exists>t. LocationValue (new_stk_loc t (off + ?tfs)) \<in>
                       set (if int j < sint (numLocals g) then sd_locals d
                            else sd_expressions d))) \<and>
               (f_values g ! j = code_MonitorValue km owner (StackSlot k off True) e \<longrightarrow>
                  (\<exists>ov t el. MonitorValue ov (new_stk_loc t (off + ?tfs)) el \<in>
                       set (sd_monitors d))) \<and>
               (f_values g ! j = code_MonitorValue km (StackSlot k off True) lockData e \<longrightarrow>
                  (\<exists>t l el. MonitorValue (LocationValue (new_stk_loc t (off + ?tfs))) l el \<in>
                       set (sd_monitors d))))"
  proof
    assume h: "s \<in> set (sites comp_result) \<and> site_debug_info s = Some di \<and>
          bytecodePosition di = Some f \<and> g \<in> set (chain f) \<and> placeholders_ok (f_values g) \<and>
          j < length (f_values g)"
    from sites_loop_recorded[OF run i(2)] h i(1) have "site_recorded ?tfs s st" by simp
    with h obtain d where d: "d \<in> set (described (debug_recorder st))"
      "\<exists>pc. scope_of_frame d pc g" "slots_recorded ?tfs g d"
      unfolding site_recorded_def scopes_recorded_def by blast
    from d(3) h have
      "f_values g ! j = StackSlot k off True \<longrightarrow>
                  (\<exists>t. LocationValue (new_stk_loc t (off + ?tfs)) \<in>
                       set (if int j < sint (numLocals g) then sd_locals d
                            else sd_expressions d))"
      "f_values g ! j = code_MonitorValue km owner (StackSlot k off True) e \<longrightarrow>
                  (\<exists>ov t el. MonitorValue ov (new_stk_loc t (off + ?tfs)) el \<in>
                       set (sd_monitors d))"
      "f_values g ! j = code_MonitorValue km (StackSlot k off True) lockData e \<longrightarrow>
                  (\<exists>t l el. MonitorValue (LocationValue (new_stk_loc t (off + ?tfs))) l el \<in>
                       set (sd_monitors d))"
      unfolding slots_recorded_def by blast+
    with d(1,2) show "\<exists>d \<in> set (described (debug_recorder st)).
               (\<exists>pc. scope_of_frame d pc g) \<and>
               (f_values g ! j = StackSlot k off True \<longrightarrow>
                  (\<exists>t. LocationValue (new_stk_loc t (off + ?tfs)) \<in>
                       set (if int j < sint (numLocals g) then sd_locals d
                            else sd_expressions d))) \<and>
               (f_values g ! j = code_MonitorValue km owner (StackSlot k off True) e \<longrightarrow>
                  (\<exists>ov t el. MonitorValue ov (new_stk_loc t (off + ?tfs)) el \<in>
                       set (sd_monitors d))) \<and>
               (f_values g ! j = code_MonitorValue km (StackSlot k off True) lockData e \<longrightarrow>
                  (\<exists>t l el. MonitorValue (LocationValue (new_stk_loc t (off + ?tfs))) l el \<in>
                       set (sd_monitors d)))"
      by blast
  qed
  have vo: "get_hotspot_value B H (total_frame_size st) T (VirtualObject kv h) = Inr (x, sec, T') \<and>
          h < length H \<and> find_object (vo_id (H ! h)) T = None \<and>
          p < length (vo_values (H ! h)) \<and> vo_values (H ! h) ! p = StackSlot k off True \<longrightarrow>
            (\<exists>a obj t. x = ObjectValue_at a \<and> (a, obj) \<in> set (objects T') \<and>
               LocationValue (new_stk_loc t (off + ?tfs)) \<in> set (ov_field_values obj))"
    using virtual_object_slot[of B H ?tfs T kv h x sec T' p k off] t by simp
  from t m tr rc vo show ?thesis by (intro conjI)
qed

lemma slot_field:
  "get_hotspot_value B slot_heap 24 (fresh_translation 0) (VirtualObject Kind_Object 0) =
     Inr (ObjectValue_at 0, None, slot_translation)"
  by (simp add: get_hotspot_value.simps field_loop.simps slot_heap_def fresh_translation_def
        find_object_def new_ObjectValue_def Let_def pad_long_array_def append_field_values_def
        append_field_def slot_translation_def slot_object_def stack_slot_value_def Kind_Int_def
        initial_locationType_def)

lemma product_build_ASSERT: "ASSERT product_build = False"
  by (simp add: product_build_def)

lemma values_loop_frame_S:
  "values_loop product_build slot_heap 24 2 0 (f_values frame_S) 0
     \<lparr>locals = [], expressions = [], monitors = []\<rparr> (fresh_translation 0) =
   Inr (slot_lists, slot_translation)"
proof -
  let ?vals = "f_values frame_S"
  let ?L1 = "\<lparr>locals = [LocationValue (new_stk_loc Location_normal 28)], expressions = [],
              monitors = []\<rparr>"
  let ?L2 = "\<lparr>locals = [LocationValue (new_stk_loc Location_normal 28), ObjectValue_at 0],
              expressions = [], monitors = []\<rparr>"
  have v: "?vals = [StackSlot Kind_Int 4 True, VirtualObject Kind_Object 0,
      code_MonitorValue Kind_Object (StackSlot Kind_Object 16 True) (StackSlot Kind_Long 8 True) False]"
    by (simp add: frame_S_def)
  have "values_loop product_build slot_heap 24 2 0 ?vals 0
          \<lparr>locals = [], expressions = [], monitors = []\<rparr> (fresh_translation 0) =
        values_loop product_build slot_heap 24 2 0 ?vals (0 + 1) ?L1 (fresh_translation 0)"
    by (rule values_loop_narrow)
       (simp_all add: v record_value_def get_hotspot_value.simps stack_slot_value_def Let_def
          Kind_Int_def initial_locationType_def)
  also have "\<dots> = values_loop product_build slot_heap 24 2 0 ?vals (1 + 1) ?L2 slot_translation"
    by (simp only: add_0) (rule values_loop_narrow, simp_all add: v record_value_def slot_field)
  also have "\<dots> = values_loop product_build slot_heap 24 2 0 ?vals (2 + 1) slot_lists slot_translation"
    by (simp only: one_add_one)
       (rule values_loop_narrow,
        simp_all add: v record_value_def get_hotspot_value.simps stack_slot_value_def Let_def
          Kind_Object_def Kind_Long_def initial_locationType_def vm_assert_def
          product_build_ASSERT slot_lists_def)
  also have "\<dots> = Inr (slot_lists, slot_translation)"
    by (rule values_loop_done) (simp add: v)
  finally show ?thesis .
qed

lemma record_scope_frame_S:
  "record_scope product_build interp slot_heap 24 pc frame_S (fresh_translation 0, rc) =
     Inr (slot_translation,
          rc @ [dump_object_pool [(0, slot_object)], describe_scope (scope_desc_of pc frame_S slot_lists)])"
  unfolding frame_S_def record_scope.simps
  by (simp add: vm_assert_def product_build_ASSERT values_loop_frame_S[unfolded frame_S_def, simplified]
        reexecute_flag_Some scope_desc_of_def frame_reexecute_def slot_translation_def)

lemma initialize_fields_example:
  "initialize_fields product_build (example_result ss) example_buffer = example_state"
  by (simp add: example_state_def initialize_fields_def example_result_def debug_build_def
        product_build_def)

lemma initialize_buffer_S:
  "initialize_buffer product_build example_view (\<lambda>m b. True) slot_heap
     (example_result [Safepoint 0 (Some debug_info_S)]) example_buffer = Inr slot_state"
proof -
  have f: "total_frame_size example_state = 24" "parameter_count example_state = 0"
     "debug_recorder example_state = []" "heap_top example_state = 0" "metadata example_state = []"
    by (simp_all add: example_state_def initialize_fields_def example_result_def debug_build_def
          product_build_def)
  have s: "site_Safepoint product_build (\<lambda>m b. True) slot_heap example_state 0 (Some debug_info_S) =
             Inr slot_state"
    by (simp add: site_Safepoint_def vm_assert_def safepoint_with_scopes_def debug_info_S_def
          create_oop_map_no_maps record_scope_at_def f
          record_scope_frame_S[unfolded fresh_translation_def] recorder_add_def
          slot_translation_def slot_state_def)
  show ?thesis
    unfolding initialize_buffer_def initialize_fields_example
    by (simp add: example_result_def dispatch_site_def s)
qed

text \<open>
  A product build with a declared frame size of 16 and one safepoint: the frame size is 24,
  the oop map has it, and the four stack slots at the offsets 4, 8, 16 and 12 are recorded
  at 28 (a local), 32 (the lock of the monitor), 40 (its owner) and 36 (the field of the
  virtual object).
\<close>

theorem frame_size_with_return_address_witness:
  "initialize_buffer product_build example_view (\<lambda>m b. True) slot_heap
     (example_result [Safepoint 0 (Some debug_info_S)]) example_buffer = Inr slot_state \<and>
   frameSize (example_result [Safepoint 0 (Some debug_info_S)]) + HeapWordSize product_build = 24 \<and>
   total_frame_size slot_state = 24 \<and>
   safepoint_maps (debug_recorder slot_state) = [new_OopMap 24 0] \<and>
   om_frame_size (new_OopMap 24 0) = 24 \<and>
   described (debug_recorder slot_state) = [scope_desc_of 0 frame_S slot_lists] \<and>
   Safepoint 0 (Some debug_info_S) \<in> set (sites (example_result [Safepoint 0 (Some debug_info_S)])) \<and>
   site_debug_info (Safepoint 0 (Some debug_info_S)) = Some debug_info_S \<and>
   bytecodePosition debug_info_S = Some frame_S \<and> frame_S \<in> set (chain frame_S) \<and>
   placeholders_ok (f_values frame_S) \<and>
   f_values frame_S ! 0 = StackSlot Kind_Int 4 True \<and>
   LocationValue (new_stk_loc Location_normal (4 + 24)) \<in>
     set (sd_locals (scope_desc_of 0 frame_S slot_lists)) \<and>
   f_values frame_S ! 2 =
     code_MonitorValue Kind_Object (StackSlot Kind_Object 16 True) (StackSlot Kind_Long 8 True) False \<and>
   MonitorValue (LocationValue (new_stk_loc Location_oop (16 + 24))) (new_stk_loc Location_lng (8 + 24)) False \<in>
     set (sd_monitors (scope_desc_of 0 frame_S slot_lists)) \<and>
   get_hotspot_value product_build slot_heap 24 (fresh_translation 0) (VirtualObject Kind_Object 0) =
     Inr (ObjectValue_at 0, None, slot_translation) \<and>
   find_object (vo_id (slot_heap ! 0)) (fresh_translation 0) = None \<and>
   vo_values (slot_heap ! 0) ! 0 = StackSlot Kind_Int 12 True \<and>
   (0, slot_object) \<in> set (objects slot_translation) \<and>
   LocationValue (new_stk_loc Location_normal (12 + 24)) \<in> set (ov_field_values slot_object)"
proof -
  note run = initialize_buffer_S
  have fs: "frameSize (example_result [Safepoint 0 (Some debug_info_S)]) + HeapWordSize product_build
              = 24"
    by (simp add: example_result_def product_build_def)
  have v: "f_values frame_S = [StackSlot Kind_Int 4 True, VirtualObject Kind_Object 0,
      code_MonitorValue Kind_Object (StackSlot Kind_Object 16 True) (StackSlot Kind_Long 8 True) False]"
    by (simp add: frame_S_def)
  have h: "Safepoint 0 (Some debug_info_S) \<in>
             set (sites (example_result [Safepoint 0 (Some debug_info_S)]))"
     "site_debug_info (Safepoint 0 (Some debug_info_S)) = Some debug_info_S"
     "bytecodePosition debug_info_S = Some frame_S" "frame_S \<in> set (chain frame_S)"
     "placeholders_ok (f_values frame_S)"
    by (simp_all add: example_result_def debug_info_S_def v Kind_Int_def Kind_Object_def)
       (simp add: frame_S_def)
  have d: "described (debug_recorder slot_state) = [scope_desc_of 0 frame_S slot_lists]"
     "safepoint_maps (debug_recorder slot_state) = [new_OopMap 24 0]"
    by (simp_all add: slot_state_def)
  have g: "get_hotspot_value product_build slot_heap 24 (fresh_translation 0)
             (VirtualObject Kind_Object 0) = Inr (ObjectValue_at 0, None, slot_translation)"
    by (rule slot_field)
  have g': "find_object (vo_id (slot_heap ! 0)) (fresh_translation 0) = None"
       "vo_values (slot_heap ! 0) ! 0 = StackSlot Kind_Int 12 True" "0 < length slot_heap"
       "0 < length (vo_values (slot_heap ! 0))"
    by (simp_all add: find_object_def fresh_translation_def slot_heap_def)
  note a = frame_size_with_return_address[where k = Kind_Int and off = 4 and j = 0 and
             s = "Safepoint 0 (Some debug_info_S)" and di = debug_info_S and f = frame_S and
             g = frame_S, OF run]
  note b = frame_size_with_return_address[where k = Kind_Long and off = 8 and j = 2 and
             s = "Safepoint 0 (Some debug_info_S)" and di = debug_info_S and f = frame_S and
             g = frame_S and km = Kind_Object and owner = "StackSlot Kind_Object 16 True" and
             e = False, OF run]
  note b' = frame_size_with_return_address[where k = Kind_Object and off = 16 and j = 2 and
             s = "Safepoint 0 (Some debug_info_S)" and di = debug_info_S and f = frame_S and
             g = frame_S and km = Kind_Object and lockData = "StackSlot Kind_Long 8 True" and
             e = False, OF run]
  note c = frame_size_with_return_address[where k = Kind_Int and off = 12 and
             T = "fresh_translation 0" and kv = Kind_Object and h = 0 and x = "ObjectValue_at 0" and
             sec = None and T' = slot_translation and p = 0, OF run]
  from a have t: "total_frame_size slot_state = 24" and
    m: "list_all (\<lambda>m. om_frame_size m = 24) (safepoint_maps (debug_recorder slot_state))"
    by (simp_all add: fs)
  from a h v d have 1: "\<exists>t. LocationValue (new_stk_loc t (4 + 24)) \<in>
     set (sd_locals (scope_desc_of 0 frame_S slot_lists))"
    by (simp add: fs frame_S_def)
  from b h v d have 2: "\<exists>ov t el. MonitorValue ov (new_stk_loc t (8 + 24)) el \<in>
     set (sd_monitors (scope_desc_of 0 frame_S slot_lists))"
    by (simp add: fs frame_S_def)
  from b' h v d have 5: "\<exists>t l el. MonitorValue (LocationValue (new_stk_loc t (16 + 24))) l el \<in>
     set (sd_monitors (scope_desc_of 0 frame_S slot_lists))"
    by (simp add: fs frame_S_def)
  from c g g' t have 3: "\<exists>a obj t. (a, obj) \<in> set (objects slot_translation) \<and>
     LocationValue (new_stk_loc t (12 + 24)) \<in> set (ov_field_values obj)"
    by (simp add: fs) blast
  have 4: "LocationValue (new_stk_loc Location_normal (4 + 24)) \<in>
             set (sd_locals (scope_desc_of 0 frame_S slot_lists))"
    "MonitorValue (LocationValue (new_stk_loc Location_oop (16 + 24))) (new_stk_loc Location_lng (8 + 24))
       False \<in> set (sd_monitors (scope_desc_of 0 frame_S slot_lists))"
    "(0, slot_object) \<in> set (objects slot_translation)"
    "LocationValue (new_stk_loc Location_normal (12 + 24)) \<in> set (ov_field_values slot_object)"
    using 1 2 5 3 by (simp_all add: slot_lists_def slot_translation_def slot_object_def)
  from run fs t m d h v g g' 4 show ?thesis
    by (simp add: new_OopMap_def)
qed
end
